theory Spec2Isabelle
  imports Main "HOL-Library.Sublist"
begin

section \<open>Python strings\<close>

text \<open>
  A Python \<open>str\<close> is modelled as a \<open>string\<close>; a \<open>char\<close> stands for the code point
  of the same number (code points below 256). The operations below are the ones the
  source calls: \<open>sub in s\<close>, \<open>s.strip()\<close>, \<open>s.split(sep)\<close> and \<open>s.replace(old, new)\<close>.
\<close>

definition NL :: char where
  "NL = CHR 0x0A"

definition isspace :: "char \<Rightarrow> bool" where
  "isspace c = (of_char c \<in> {9, 10, 11, 12, 13, 28, 29, 30, 31, 32, 133, 160 :: nat})"

definition lstrip :: "string \<Rightarrow> string" where
  "lstrip s = dropWhile isspace s"

definition rstrip :: "string \<Rightarrow> string" where
  "rstrip s = rev (dropWhile isspace (rev s))"

definition strip :: "string \<Rightarrow> string" where
  "strip s = rstrip (lstrip s)"

text \<open>\<open>sub in s\<close>: some suffix of \<open>s\<close> starts with \<open>sub\<close>.\<close>

fun contains :: "string \<Rightarrow> string \<Rightarrow> bool" where
  "contains sub [] = (sub = [])"
| "contains sub (c # cs) = (prefix sub (c # cs) \<or> contains sub cs)"

text \<open>
  \<open>s.split(sep)\<close>: cut at the non-overlapping occurrences of \<open>sep\<close>, leftmost first.
  Python raises \<open>ValueError\<close> for an empty separator; every call of the source passes
  a non-empty literal, and for an empty one this function cuts nowhere.
\<close>

function split_py :: "string \<Rightarrow> string \<Rightarrow> string list" where
  "split_py sep [] = [[]]"
| "split_py sep (c # cs) =
     (if sep \<noteq> [] \<and> prefix sep (c # cs)
      then [] # split_py sep (drop (length sep) (c # cs))
      else (case split_py sep cs of
              [] \<Rightarrow> [[c]]
            | p # ps \<Rightarrow> (c # p) # ps))"
  by pat_completeness auto
termination
  by (relation "measure (\<lambda>(sep, s). length s)") (auto simp: neq_Nil_conv)

text \<open>
  \<open>s.replace(old, new)\<close> for a non-empty \<open>old\<close>: every non-overlapping occurrence,
  leftmost first, becomes \<open>new\<close>. The source only calls it with the literal \<open>"Q:"\<close>.
\<close>

function replace_py :: "string \<Rightarrow> string \<Rightarrow> string \<Rightarrow> string" where
  "replace_py old new [] = []"
| "replace_py old new (c # cs) =
     (if old \<noteq> [] \<and> prefix old (c # cs)
      then new @ replace_py old new (drop (length old) (c # cs))
      else c # replace_py old new cs)"
  by pat_completeness auto
termination
  by (relation "measure (\<lambda>(old, new, s). length s)") (auto simp: neq_Nil_conv)

section \<open>Errors\<close>

text \<open>
  The exceptions that can travel through the code: a missing dictionary key, a list
  index out of range, and any exception raised outside the repository (the transformer
  framework, the tokenizer, the operating system), kept by its message.
\<close>

datatype error = KeyError string | IndexError | Failure string

text \<open>\<open>str(e)\<close>, as the handlers of the interface print it.\<close>

fun str_of_error :: "error \<Rightarrow> string" where
  "str_of_error (KeyError k) = [CHR 0x27] @ k @ [CHR 0x27]"
| "str_of_error IndexError = ''list index out of range''"
| "str_of_error (Failure m) = m"

text \<open>\<open>xs[i]\<close> for a non-negative literal index.\<close>

definition getitem :: "'a list \<Rightarrow> nat \<Rightarrow> error + 'a" where
  "getitem xs i = (if i < length xs then Inr (xs ! i) else Inl IndexError)"

section \<open>DataProcessor.parse\_faq\_input\<close>

text \<open>
  The body of the \<open>for\<close> loop, with \<open>qa_pairs\<close> as the accumulator, then the function.
  The handler of the source logs and raises again, so an error is passed on unchanged.
\<close>

fun parse_lines :: "string list \<Rightarrow> (string \<times> string) list \<Rightarrow> error + (string \<times> string) list" where
  "parse_lines [] qa_pairs = Inr qa_pairs"
| "parse_lines (line # lines) qa_pairs =
     (if contains ''Q:'' line \<and> contains ''A:'' line then
        (case getitem (split_py ''A:'' line) 0 of
           Inl e \<Rightarrow> Inl e
         | Inr part0 \<Rightarrow>
             (let q_part = strip (replace_py ''Q:'' [] part0) in
              case getitem (split_py ''A:'' line) 1 of
                Inl e \<Rightarrow> Inl e
              | Inr part1 \<Rightarrow>
                  (let a_part = strip part1 in
                   parse_lines lines (qa_pairs @ [(q_part, a_part)]))))
      else parse_lines lines qa_pairs)"

definition parse_faq_input :: "string \<Rightarrow> error + (string \<times> string) list" where
  "parse_faq_input raw_text = parse_lines (split_py [NL] (strip raw_text)) []"

text \<open>
  The loop in closed form, for the proofs: the test of a line, and the pair the loop
  appends for a line that passes it.
\<close>

definition candidate :: "string \<Rightarrow> bool" where
  "candidate line = (contains ''Q:'' line \<and> contains ''A:'' line)"

definition line_pair :: "string \<Rightarrow> string \<times> string" where
  "line_pair line =
     (strip (replace_py ''Q:'' [] (split_py ''A:'' line ! 0)), strip (split_py ''A:'' line ! 1))"

text \<open>
  Words of the specification: a text made of lines (the lines joined by line breaks),
  the number of places where a marker occurs in a line, a line (no line break in it)
  with exactly one \<open>Q:\<close> followed by exactly one \<open>A:\<close>, and a string free of leading and
  trailing whitespace.
\<close>

fun join_lines :: "string list \<Rightarrow> string" where
  "join_lines [] = []"
| "join_lines [l] = l"
| "join_lines (l # l' # ls) = l @ [NL] @ join_lines (l' # ls)"

fun count_occ :: "string \<Rightarrow> string \<Rightarrow> nat" where
  "count_occ sub [] = 0"
| "count_occ sub (c # cs) = (if prefix sub (c # cs) then 1 else 0) + count_occ sub cs"

definition well_formed_line :: "string \<Rightarrow> bool" where
  "well_formed_line l =
     (count_occ ''Q:'' l = 1 \<and> count_occ ''A:'' l = 1 \<and> NL \<notin> set l \<and>
      (\<exists>u w. l = u @ ''A:'' @ w \<and> contains ''Q:'' u))"

text \<open>
  A line read as: \<open>u\<close>, its only \<open>Q:\<close>, \<open>v\<close>, its only \<open>A:\<close>, \<open>w\<close>.
\<close>

definition marked_line :: "string \<Rightarrow> string \<Rightarrow> string \<Rightarrow> string \<Rightarrow> bool" where
  "marked_line l u v w =
     (l = u @ ''Q:'' @ v @ ''A:'' @ w \<and>
      \<not> contains ''Q:'' (u @ ''Q'') \<and> \<not> contains ''Q:'' (v @ ''A:'' @ w) \<and>
      \<not> contains ''A:'' (u @ ''Q:'' @ v @ ''A'') \<and> \<not> contains ''A:'' w)"

definition trimmed :: "string \<Rightarrow> bool" where
  "trimmed s = (s = [] \<or> (\<not> isspace (hd s) \<and> \<not> isspace (last s)))"

section \<open>Configuration (config.py)\<close>

datatype cfg_value = CStr string | CInt int | CDec string

text \<open>\<open>d[k]\<close> on a dictionary, kept as the list of its items in insertion order.\<close>

definition dict_getitem :: "(string \<times> 'v) list \<Rightarrow> string \<Rightarrow> error + 'v" where
  "dict_getitem d k = (case map_of d k of None \<Rightarrow> Inl (KeyError k) | Some v \<Rightarrow> Inr v)"

text \<open>The device is \<open>"mps"\<close> when the framework reports it available, else \<open>"cpu"\<close>.\<close>

definition MODEL_CONFIG :: "bool \<Rightarrow> (string \<times> cfg_value) list" where
  "MODEL_CONFIG mps =
     [(''base_model'', CStr ''distilgpt2''),
      (''device'', CStr (if mps then ''mps'' else ''cpu''))]"

definition TRAINING_CONFIG :: "(string \<times> cfg_value) list" where
  "TRAINING_CONFIG =
     [(''num_epochs'', CInt 1),
      (''batch_size'', CInt 2),
      (''learning_rate'', CDec ''1e-4''),
      (''warmup_steps'', CInt 10),
      (''max_grad_norm'', CDec ''1.0''),
      (''max_length'', CInt 128),
      (''gradient_accumulation_steps'', CInt 4)]"

definition GENERATION_CONFIG :: "(string \<times> cfg_value) list" where
  "GENERATION_CONFIG =
     [(''max_length'', CInt 128),
      (''num_beams'', CInt 2),
      (''temperature'', CDec ''0.7''),
      (''top_k'', CInt 50),
      (''top_p'', CDec ''0.9''),
      (''no_repeat_ngram_size'', CInt 2)]"

definition SAMPLE_INDUSTRIES :: "(string \<times> (string \<times> string) list) list" where
  "SAMPLE_INDUSTRIES =
     [(''retail'',
        [(''What are your store hours?'',
          ''Our store is open Monday through Saturday from 9 AM to 6 PM.''),
         (''Do you offer returns?'',
          ''Yes, we offer returns within 30 days of purchase with original receipt.'')]),
      (''restaurant'',
        [(''Do you take reservations?'',
          ''Yes, we accept reservations through our website or by phone.''),
         (''Are you open for lunch?'',
          ''Yes, we serve lunch from 11 AM to 3 PM daily.'')]),
      (''fitness'',
        [(''What are your membership options?'',
          ''We offer monthly and annual memberships with various packages.''),
         (''Do you offer personal training?'',
          ''Yes, we have certified personal trainers available for one-on-one sessions.'')])]"

section \<open>DataProcessor.prepare\_training\_data\<close>

text \<open>
  An example is the dictionary \<open>{"text": ...}\<close>; the dataset is the list of the examples,
  in order. \<open>business_data\<close> is a dictionary of strings.
\<close>

type_synonym example = "(string \<times> string) list"

definition sep_token :: string where
  "sep_token = ''###''"

definition prepare_training_data ::
  "(string \<times> string) list \<Rightarrow> (string \<times> string) list \<Rightarrow> string \<Rightarrow> example list" where
  "prepare_training_data business_data custom_faqs industry =
     (let all_qa_pairs =
            custom_faqs @
            (case map_of SAMPLE_INDUSTRIES industry of
               None \<Rightarrow> []
             | Some faqs \<Rightarrow> faqs)
      in map (\<lambda>(question, answer).
                [(''text'', question @ '' '' @ sep_token @ '' '' @ answer)])
             all_qa_pairs)"

section \<open>What lies outside the repository\<close>

text \<open>
  The transformer framework, the tokenizer and the file system are parameters: each
  operation either fails with an error or returns a value. \<open>'m\<close> is a model handle,
  \<open>'i\<close> a tensor of token ids, \<open>'d\<close> a tokenized dataset, \<open>'l\<close> a training loss.
  \<open>path_str p\<close> is \<open>str(Path(p))\<close>, the spelling \<open>pathlib\<close> gives a path.
\<close>

record ('m, 'i, 'd, 'l) externals =
  mps_available :: bool
  root_dir :: string
  path_str :: "string \<Rightarrow> string"
  from_pretrained :: "string \<Rightarrow> error + 'm"
  tok_encode :: "string \<Rightarrow> error + 'i"
  model_generate :: "'m \<Rightarrow> 'i \<Rightarrow> cfg_value \<Rightarrow> cfg_value \<Rightarrow> cfg_value \<Rightarrow> error + 'i"
  tok_decode :: "'i \<Rightarrow> error + string"
  tokenize :: "example list \<Rightarrow> error + 'd"
  trainer_train :: "'m \<Rightarrow> 'd \<Rightarrow> string \<Rightarrow> cfg_value list \<Rightarrow> error + ('l \<times> 'm)"
  format_loss :: "'l \<Rightarrow> string"
  open_write :: "string \<Rightarrow> error option"

definition DATA_DIR :: "('m, 'i, 'd, 'l) externals \<Rightarrow> string" where
  "DATA_DIR ext = root_dir ext @ ''/data''"

definition MODELS_DIR :: "('m, 'i, 'd, 'l) externals \<Rightarrow> string" where
  "MODELS_DIR ext = root_dir ext @ ''/models''"

text \<open>
  A written file holds the JSON document that \<open>json.dump\<close> serialises; the layout of the
  text (indentation, escapes) is the library's.
\<close>

datatype json = JString string | JArray "json list" | JObject "(string \<times> json) list"

text \<open>The calls made to the outside, in order.\<close>

datatype call =
    LoadCall string
  | EncodeCall string
  | GenerateCall
  | DecodeCall
  | TokenizeCall
  | TrainCall string
  | OpenCall string

text \<open>
  The state: the trainer's current model, the attribute \<open>loaded_model_path\<close> of the
  interface (\<open>None\<close> while the attribute does not exist), the files, and the calls so far.
\<close>

record 'm world =
  model :: 'm
  loaded_model_path :: "string option"
  files :: "string \<rightharpoonup> json"
  calls :: "call list"

definition bind_err :: "error + 'a \<Rightarrow> ('a \<Rightarrow> error + 'b) \<Rightarrow> error + 'b" where
  "bind_err r f = (case r of Inl e \<Rightarrow> Inl e | Inr x \<Rightarrow> f x)"

section \<open>DataProcessor.tokenize\_data and export\_chatbot\_data\<close>

definition tokenize_data ::
  "('m, 'i, 'd, 'l) externals \<Rightarrow> 'm world \<Rightarrow> example list \<Rightarrow> (error + 'd) \<times> 'm world" where
  "tokenize_data ext w dataset =
     (tokenize ext dataset, w\<lparr>calls := calls w @ [TokenizeCall]\<rparr>)"

definition export_chatbot_data ::
  "('m, 'i, 'd, 'l) externals \<Rightarrow> 'm world \<Rightarrow> (string \<times> string) list \<Rightarrow>
   (string \<times> string) list \<Rightarrow> string option \<Rightarrow> (error + string) \<times> 'm world" where
  "export_chatbot_data ext w business_data qa_pairs output_file =
     (let export_data =
            JObject
              [(''business_info'', JObject (map (\<lambda>(k, v). (k, JString v)) business_data)),
               (''qa_pairs'',
                JArray (map (\<lambda>(q, a). JObject [(''question'', JString q), (''answer'', JString a)])
                            qa_pairs))];
          output_file' =
            (case output_file of
               None \<Rightarrow> DATA_DIR ext @ ''/chatbot_export.json''
             | Some f \<Rightarrow> f);
          w1 = w\<lparr>calls := calls w @ [OpenCall output_file']\<rparr>
      in case open_write ext output_file' of
           Some e \<Rightarrow> (Inl e, w1)
         | None \<Rightarrow> (Inr output_file', w1\<lparr>files := (files w1)(output_file' \<mapsto> export_data)\<rparr>))"

section \<open>ChatbotTrainer\<close>

definition train ::
  "('m, 'i, 'd, 'l) externals \<Rightarrow> 'm world \<Rightarrow> 'd \<Rightarrow> string option \<Rightarrow>
   (error + ('l \<times> string)) \<times> 'm world" where
  "train ext w dataset output_dir =
     (let output_dir' =
            (case output_dir of
               None \<Rightarrow> MODELS_DIR ext @ ''/fine_tuned''
             | Some dir \<Rightarrow> dir);
          training_args =
            bind_err (dict_getitem TRAINING_CONFIG ''num_epochs'') (\<lambda>num_train_epochs.
            bind_err (dict_getitem TRAINING_CONFIG ''batch_size'') (\<lambda>batch_size.
            bind_err (dict_getitem TRAINING_CONFIG ''learning_rate'') (\<lambda>learning_rate.
            bind_err (dict_getitem TRAINING_CONFIG ''warmup_steps'') (\<lambda>warmup_steps.
            bind_err (dict_getitem TRAINING_CONFIG ''max_grad_norm'') (\<lambda>max_grad_norm.
            bind_err (dict_getitem TRAINING_CONFIG ''gradient_accumulation_steps'') (\<lambda>accumulation.
            Inr [num_train_epochs, batch_size, learning_rate, warmup_steps, max_grad_norm,
                 accumulation]))))))
      in case training_args of
           Inl e \<Rightarrow> (Inl e, w)
         | Inr args \<Rightarrow>
             (let w1 = w\<lparr>calls := calls w @ [TrainCall output_dir']\<rparr>
              in case trainer_train ext (model w) dataset output_dir' args of
                   Inl e \<Rightarrow> (Inl e, w1)
                 | Inr (training_loss, trained) \<Rightarrow>
                     (Inr (training_loss, output_dir'), w1\<lparr>model := trained\<rparr>)))"

text \<open>
  The last statement before the return of \<open>generate_response\<close>:
  \<open>response.split("###")[-1].strip()\<close>.
\<close>

definition clean_response :: "string \<Rightarrow> error + string" where
  "clean_response response =
     (let pieces = split_py ''###'' response
      in if pieces = [] then Inl IndexError else Inr (strip (last pieces)))"

definition generate_response ::
  "('m, 'i, 'd, 'l) externals \<Rightarrow> 'm world \<Rightarrow> string \<Rightarrow> (error + string) \<times> 'm world" where
  "generate_response ext w question =
     (let input_text = question @ '' ###'';
          w1 = w\<lparr>calls := calls w @ [EncodeCall input_text]\<rparr>
      in case tok_encode ext input_text of
           Inl e \<Rightarrow> (Inl e, w1)
         | Inr input_ids \<Rightarrow>
             (let config = MODEL_CONFIG (mps_available ext);
                  kwargs =
                    bind_err (dict_getitem config ''max_length'') (\<lambda>max_length.
                    bind_err (dict_getitem config ''temperature'') (\<lambda>temperature.
                    bind_err (dict_getitem config ''top_p'') (\<lambda>top_p.
                    Inr (max_length, temperature, top_p))))
              in case kwargs of
                   Inl e \<Rightarrow> (Inl e, w1)
                 | Inr (max_length, temperature, top_p) \<Rightarrow>
                     (let w2 = w1\<lparr>calls := calls w1 @ [GenerateCall]\<rparr>
                      in case model_generate ext (model w) input_ids max_length temperature top_p of
                           Inl e \<Rightarrow> (Inl e, w2)
                         | Inr output_ids \<Rightarrow>
                             (let w3 = w2\<lparr>calls := calls w2 @ [DecodeCall]\<rparr>
                              in case tok_decode ext output_ids of
                                   Inl e \<Rightarrow> (Inl e, w3)
                                 | Inr response \<Rightarrow> (clean_response response, w3)))))"

text \<open>
  \<open>load_model\<close> receives a \<open>Path\<close>, kept here by its string, and hands \<open>str\<close> of it to the
  framework.
\<close>

definition load_model ::
  "('m, 'i, 'd, 'l) externals \<Rightarrow> 'm world \<Rightarrow> string \<Rightarrow> (error + unit) \<times> 'm world" where
  "load_model ext w model_path =
     (let w1 = w\<lparr>calls := calls w @ [LoadCall model_path]\<rparr>
      in case from_pretrained ext model_path of
           Inl e \<Rightarrow> (Inl e, w1)
         | Inr loaded \<Rightarrow> (Inr (), w1\<lparr>model := loaded\<rparr>))"

section \<open>ChatbotInterface\<close>

text \<open>
  The body of the \<open>try\<close> of \<open>train_chatbot\<close>, then the function with its handler. The
  notifications to the user interface and the logger do not change what is returned.
\<close>

definition train_chatbot_body ::
  "('m, 'i, 'd, 'l) externals \<Rightarrow> 'm world \<Rightarrow> string \<Rightarrow> string \<Rightarrow> string \<Rightarrow>
   (error + (string \<times> string)) \<times> 'm world" where
  "train_chatbot_body ext w business_name industry faq_text =
     (case parse_faq_input faq_text of
        Inl e \<Rightarrow> (Inl e, w)
      | Inr qa_pairs \<Rightarrow>
          (let business_data = [(''name'', business_name), (''industry'', industry)];
               dataset = prepare_training_data business_data qa_pairs industry
           in case tokenize_data ext w dataset of
                (Inl e, w1) \<Rightarrow> (Inl e, w1)
              | (Inr tokenized_dataset, w1) \<Rightarrow>
                  (case train ext w1 tokenized_dataset None of
                     (Inl e, w2) \<Rightarrow> (Inl e, w2)
                   | (Inr (loss, model_path), w2) \<Rightarrow>
                       (case export_chatbot_data ext w2 business_data qa_pairs None of
                          (Inl e, w3) \<Rightarrow> (Inl e, w3)
                        | (Inr export_path, w3) \<Rightarrow>
                            (Inr (''Training completed! Loss: '' @ format_loss ext loss @ [NL] @
                                  ''Model saved to: '' @ model_path @ [NL] @
                                  ''Data exported to: '' @ export_path,
                                  model_path),
                             w3)))))"

definition train_chatbot ::
  "('m, 'i, 'd, 'l) externals \<Rightarrow> 'm world \<Rightarrow> string \<Rightarrow> string \<Rightarrow> string \<Rightarrow>
   (string \<times> string) \<times> 'm world" where
  "train_chatbot ext w business_name industry faq_text =
     (case train_chatbot_body ext w business_name industry faq_text of
        (Inl e, w') \<Rightarrow> ((''Error: '' @ str_of_error e, []), w')
      | (Inr result, w') \<Rightarrow> (result, w'))"

text \<open>
  \<open>chat\<close>: the two guards, the reload when the path is not the one loaded last, the
  generation, and the handler; it returns the reply, the history and the new state.
  The path goes to \<open>load_model\<close> as \<open>Path(model_path)\<close>; the attribute keeps the string as
  it was given.
\<close>

definition chat ::
  "('m, 'i, 'd, 'l) externals \<Rightarrow> 'm world \<Rightarrow> string \<Rightarrow> string \<Rightarrow> (string \<times> string) list \<Rightarrow>
   (string \<times> (string \<times> string) list) \<times> 'm world" where
  "chat ext w question model_path history =
     (if model_path = [] then ((''Please train the chatbot first!'', history), w)
      else if question = [] then ((''Please ask a question!'', history), w)
      else
        (case (if loaded_model_path w = None \<or> loaded_model_path w \<noteq> Some model_path
               then (case load_model ext w (path_str ext model_path) of
                       (Inl e, w1) \<Rightarrow> (Inl e, w1)
                     | (Inr u, w1) \<Rightarrow> (Inr u, w1\<lparr>loaded_model_path := Some model_path\<rparr>))
               else (Inr (), w)) of
           (Inl e, w1) \<Rightarrow> ((''Error: '' @ str_of_error e, history), w1)
         | (Inr u, w1) \<Rightarrow>
             (case generate_response ext w1 question of
                (Inl e, w2) \<Rightarrow> ((''Error: '' @ str_of_error e, history), w2)
              | (Inr response, w2) \<Rightarrow> ((response, history @ [(question, response)]), w2))))"

section \<open>Reading an exported document back\<close>

text \<open>
  What a reader of the exported file does with the decoded document: take a field of
  an object, read a dictionary of strings, and read the list of question and answer
  objects back into pairs.
\<close>

fun json_field :: "json \<Rightarrow> string \<Rightarrow> json option" where
  "json_field (JObject members) k = map_of members k"
| "json_field (JString s) k = None"
| "json_field (JArray items) k = None"

fun json_string :: "json \<Rightarrow> string option" where
  "json_string (JString s) = Some s"
| "json_string (JArray items) = None"
| "json_string (JObject members) = None"

fun json_str_dict :: "json \<Rightarrow> (string \<times> string) list option" where
  "json_str_dict (JObject members) =
     those (map (\<lambda>(k, v). map_option (Pair k) (json_string v)) members)"
| "json_str_dict (JString s) = None"
| "json_str_dict (JArray items) = None"

definition json_qa :: "json \<Rightarrow> (string \<times> string) option" where
  "json_qa item =
     (case (json_field item ''question'', json_field item ''answer'') of
        (Some (JString q), Some (JString a)) \<Rightarrow> Some (q, a)
      | _ \<Rightarrow> None)"

fun json_qa_pairs :: "json \<Rightarrow> (string \<times> string) list option" where
  "json_qa_pairs (JArray items) = those (map json_qa items)"
| "json_qa_pairs (JString s) = None"
| "json_qa_pairs (JObject members) = None"

section \<open>A sample environment\<close>

text \<open>
  One concrete outside world, for running the functions on inputs: every operation of
  the framework succeeds, and nothing has been loaded or written yet. Paths are spelled
  as \<open>PurePosixPath\<close> spells them: empty and \<open>.\<close> components are dropped, a leading \<open>/\<close>
  is kept (exactly two are kept as two), and the empty path is \<open>.\<close>.
\<close>

fun join_py :: "string \<Rightarrow> string list \<Rightarrow> string" where
  "join_py sep [] = []"
| "join_py sep [p] = p"
| "join_py sep (p # p' # ps) = p @ sep @ join_py sep (p' # ps)"

definition posix_path_str :: "string \<Rightarrow> string" where
  "posix_path_str p =
     (let parts = filter (\<lambda>part. part \<noteq> [] \<and> part \<noteq> ''.'') (split_py ''/'' p);
          root = (if prefix ''//'' p \<and> \<not> prefix ''///'' p then ''//''
                  else if prefix ''/'' p then ''/''
                  else [])
      in if root = [] \<and> parts = [] then ''.'' else root @ join_py ''/'' parts)"

definition sample_ext :: "(nat, nat list, nat, nat) externals" where
  "sample_ext =
     \<lparr>mps_available = False,
      root_dir = ''/srv/bot'',
      path_str = posix_path_str,
      from_pretrained = (\<lambda>path. Inr (length path)),
      tok_encode = (\<lambda>s. Inr (map of_char s)),
      model_generate = (\<lambda>m ids max_length temperature top_p. Inr ids),
      tok_decode = (\<lambda>ids. Inr (map char_of ids)),
      tokenize = (\<lambda>examples. Inr (length examples)),
      trainer_train = (\<lambda>m d dir args. Inr (0, Suc m)),
      format_loss = (\<lambda>l. ''0.0000''),
      open_write = (\<lambda>path. None)\<rparr>"

definition sample_world :: "nat world" where
  "sample_world = \<lparr>model = 0, loaded_model_path = None, files = Map.empty, calls = []\<rparr>"

section \<open>Facts about the string operations\<close>

subsection \<open>Occurrences and split\<close>

lemma contains_iff: "contains sub s \<longleftrightarrow> (\<exists>p r. s = p @ sub @ r)"
proof (induction s)
  case Nil
  then show ?case by auto
next
  case (Cons c cs)
  show ?case
  proof
    assume "contains sub (c # cs)"
    then consider "prefix sub (c # cs)" | "contains sub cs" by auto
    then show "\<exists>p r. c # cs = p @ sub @ r"
    proof cases
      case 1
      then obtain r where "c # cs = sub @ r" by (auto simp: prefix_def)
      then have "c # cs = [] @ sub @ r" by simp
      then show ?thesis by blast
    next
      case 2
      with Cons.IH obtain p r where "cs = p @ sub @ r" by blast
      then have "c # cs = (c # p) @ sub @ r" by simp
      then show ?thesis by blast
    qed
  next
    assume "\<exists>p r. c # cs = p @ sub @ r"
    then obtain p r where pr: "c # cs = p @ sub @ r" by blast
    show "contains sub (c # cs)"
    proof (cases p)
      case Nil
      with pr have "prefix sub (c # cs)" by (simp add: prefix_def)
      then show ?thesis by simp
    next
      case (Cons a p')
      with pr have "cs = p' @ sub @ r" by simp
      with Cons.IH have "contains sub cs" by blast
      then show ?thesis by simp
    qed
  qed
qed

lemma contains_appendI: "contains sub s \<Longrightarrow> contains sub (a @ s @ b)"
proof -
  assume "contains sub s"
  then obtain p r where "s = p @ sub @ r" by (auto simp: contains_iff)
  then have "a @ s @ b = (a @ p) @ sub @ (r @ b)" by simp
  then show ?thesis unfolding contains_iff by blast
qed

lemma contains_append_left: "contains sub s \<Longrightarrow> contains sub (s @ b)"
  using contains_appendI [of sub s "[]" b] by simp

lemma contains_append_right: "contains sub s \<Longrightarrow> contains sub (a @ s)"
  using contains_appendI [of sub s a "[]"] by simp

lemma short_not_contains: "length s < length sub \<Longrightarrow> \<not> contains sub s"
  by (auto simp: contains_iff)

lemma prefix_short_append:
  assumes "prefix xs (ys @ zs)" and "length xs \<le> length ys"
  shows "prefix xs ys"
  by (rule prefix_length_prefix [OF assms(1) _ assms(2)]) simp

lemma sep_butlast_last: "sep \<noteq> [] \<Longrightarrow> p @ sep @ r = (p @ butlast sep) @ ([last sep] @ r)"
  by (metis append_assoc append_butlast_last_id)

lemma split_py_nonempty: "split_py sep s \<noteq> []"
  by (induction sep s rule: split_py.induct) (auto split: list.splits)

lemma split_py_no_sep: "\<not> contains sep s \<Longrightarrow> split_py sep s = [s]"
  by (induction s) auto

lemma not_prefix_of_first:
  assumes "sep \<noteq> []" and "\<not> contains sep ((c # p) @ butlast sep)"
  shows "\<not> prefix sep ((c # p) @ sep @ r)"
proof
  assume "prefix sep ((c # p) @ sep @ r)"
  then have "prefix sep (((c # p) @ butlast sep) @ ([last sep] @ r))"
    using sep_butlast_last [OF assms(1), of "c # p" r] by metis
  moreover have "length sep \<le> length ((c # p) @ butlast sep)" by simp
  ultimately have "prefix sep ((c # p) @ butlast sep)" by (rule prefix_short_append)
  with assms(2) show False by simp
qed

lemma split_py_first:
  assumes "sep \<noteq> []" and "\<not> contains sep (p @ butlast sep)"
  shows "split_py sep (p @ sep @ r) = p # split_py sep r"
  using assms(2)
proof (induction p)
  case Nil
  from assms(1) obtain c cs where "sep = c # cs" by (cases sep) auto
  then show ?case by simp
next
  case (Cons c p)
  from Cons.prems have np: "\<not> prefix sep ((c # p) @ sep @ r)"
    using assms(1) by (rule not_prefix_of_first [rotated])
  from Cons.prems have "\<not> contains sep (p @ butlast sep)" by simp
  with Cons.IH have "split_py sep (p @ sep @ r) = p # split_py sep r" by simp
  with np show ?case by simp
qed

lemma first_occurrence:
  assumes "sep \<noteq> []" and "contains sep s"
  shows "\<exists>p r. s = p @ sep @ r \<and> \<not> contains sep (p @ butlast sep)"
  using assms(2)
proof (induction s)
  case Nil
  with assms(1) show ?case by simp
next
  case (Cons c cs)
  show ?case
  proof (cases "prefix sep (c # cs)")
    case True
    then obtain r where "c # cs = [] @ sep @ r" by (auto simp: prefix_def)
    moreover have "\<not> contains sep ([] @ butlast sep)"
      using assms(1) by (simp add: short_not_contains)
    ultimately show ?thesis by blast
  next
    case False
    with Cons.prems have "contains sep cs" by simp
    with Cons.IH obtain p r where pr: "cs = p @ sep @ r" "\<not> contains sep (p @ butlast sep)"
      by blast
    have "\<not> prefix sep ((c # p) @ butlast sep)"
    proof
      assume "prefix sep ((c # p) @ butlast sep)"
      then have "prefix sep (((c # p) @ butlast sep) @ ([last sep] @ r))"
        by (rule prefix_prefix)
      then have "prefix sep (c # cs)"
        using pr(1) sep_butlast_last [OF assms(1), of "c # p" r] by (metis append_Cons)
      with False show False ..
    qed
    with pr(2) have "\<not> contains sep ((c # p) @ butlast sep)" by simp
    moreover have "c # cs = (c # p) @ sep @ r" using pr(1) by simp
    ultimately show ?thesis by blast
  qed
qed

lemma split_py_length2:
  assumes "sep \<noteq> []" and "contains sep s"
  shows "2 \<le> length (split_py sep s)"
proof -
  from first_occurrence [OF assms] obtain p r
    where "s = p @ sep @ r" "\<not> contains sep (p @ butlast sep)" by blast
  then have "split_py sep s = p # split_py sep r"
    using assms(1) by (simp add: split_py_first)
  moreover have "split_py sep r \<noteq> []" by (rule split_py_nonempty)
  ultimately show ?thesis by (cases "split_py sep r") auto
qed

subsection \<open>strip\<close>

lemma lstrip_append_nonspace: "x \<noteq> [] \<Longrightarrow> \<not> isspace (hd x) \<Longrightarrow> lstrip (u @ x) = lstrip u @ x"
  by (induction u) (auto simp: lstrip_def neq_Nil_conv)

lemma rstrip_append_nonspace:
  assumes "y \<noteq> []" and "\<not> isspace (last y)"
  shows "rstrip (y @ w) = y @ rstrip w"
proof -
  have "lstrip (rev w @ rev y) = lstrip (rev w) @ rev y"
    using assms by (intro lstrip_append_nonspace) (auto simp: hd_rev)
  then show ?thesis by (simp add: rstrip_def lstrip_def)
qed

lemma lstrip_decomp: "s = takeWhile isspace s @ lstrip s"
  by (simp add: lstrip_def)

lemma rstrip_decomp: "s = rstrip s @ rev (takeWhile isspace (rev s))"
proof -
  have "rstrip s @ rev (takeWhile isspace (rev s)) =
        rev (takeWhile isspace (rev s) @ dropWhile isspace (rev s))"
    by (simp add: rstrip_def del: takeWhile_dropWhile_id)
  then show ?thesis by simp
qed

lemma lstrip_spaces: "\<forall>c\<in>set a. isspace c \<Longrightarrow> lstrip (a @ s) = lstrip s"
  by (simp add: lstrip_def dropWhile_append2)

lemma lstrip_lstrip_append: "lstrip (lstrip u @ v) = lstrip (u @ v)"
proof -
  have "lstrip (u @ v) = lstrip (takeWhile isspace u @ (lstrip u @ v))"
    using lstrip_decomp [of u] by (metis append_assoc)
  also have "\<dots> = lstrip (lstrip u @ v)"
    by (rule lstrip_spaces) (auto dest: set_takeWhileD)
  finally show ?thesis by simp
qed

lemma rstrip_Cons_keep: "\<not> (\<forall>x\<in>set s. isspace x) \<Longrightarrow> rstrip (c # s) = c # rstrip s"
  by (auto simp: rstrip_def dropWhile_append)

lemma rstrip_Cons_spaces:
  "\<forall>x\<in>set s. isspace x \<Longrightarrow> rstrip (c # s) = (if isspace c then [] else [c])"
  by (auto simp: rstrip_def dropWhile_append)

lemma lstrip_all_space: "\<forall>x\<in>set s. isspace x \<Longrightarrow> lstrip s = []"
  by (simp add: lstrip_def)

lemma lstrip_rstrip_commute: "lstrip (rstrip s) = rstrip (lstrip s)"
proof (induction s)
  case Nil
  then show ?case by (simp add: lstrip_def rstrip_def)
next
  case (Cons c s)
  show ?case
  proof (cases "\<forall>x\<in>set s. isspace x")
    case True
    then have ls: "lstrip s = []" by (rule lstrip_all_space)
    show ?thesis
    proof (cases "isspace c")
      case c: True
      then have "lstrip (c # s) = []" using ls by (simp add: lstrip_def)
      moreover have "rstrip (c # s) = []" using rstrip_Cons_spaces [OF True, of c] c by simp
      moreover have "lstrip [] = []" "rstrip [] = []" by (simp_all add: lstrip_def rstrip_def)
      ultimately show ?thesis by (simp only:)
    next
      case c: False
      then have "lstrip (c # s) = c # s" by (simp add: lstrip_def)
      moreover have "rstrip (c # s) = [c]" using rstrip_Cons_spaces [OF True, of c] c by simp
      moreover have "lstrip [c] = [c]" using c by (simp add: lstrip_def)
      ultimately show ?thesis by simp
    qed
  next
    case False
    show ?thesis
    proof (cases "isspace c")
      case True
      have "rstrip (c # s) = c # rstrip s" using False by (rule rstrip_Cons_keep)
      moreover have "lstrip (c # rstrip s) = lstrip (rstrip s)" using True by (simp add: lstrip_def)
      moreover have "lstrip (c # s) = lstrip s" using True by (simp add: lstrip_def)
      ultimately show ?thesis using Cons.IH by (simp only:)
    next
      case c: False
      have "rstrip (c # s) = c # rstrip s" using False by (rule rstrip_Cons_keep)
      moreover have "lstrip (c # rstrip s) = c # rstrip s" using c by (simp add: lstrip_def)
      moreover have "lstrip (c # s) = c # s" using c by (simp add: lstrip_def)
      ultimately show ?thesis by (simp only:)
    qed
  qed
qed

lemma rstrip_idem: "rstrip (rstrip s) = rstrip s"
proof (cases "dropWhile isspace (rev s)")
  case Nil
  then show ?thesis by (simp add: rstrip_def)
next
  case (Cons a as)
  then have "\<not> isspace a" using hd_dropWhile [of isspace "rev s"] by simp
  with Cons show ?thesis by (simp add: rstrip_def)
qed

lemma strip_lstrip_append: "strip (lstrip u @ v) = strip (u @ v)"
  by (simp add: strip_def lstrip_lstrip_append)

lemma strip_rstrip: "strip (rstrip w) = strip w"
  by (simp add: strip_def lstrip_rstrip_commute rstrip_idem)

lemma strip_sublist: "\<exists>a b. s = a @ strip s @ b"
proof -
  have "s = takeWhile isspace s @ lstrip s" by (rule lstrip_decomp)
  also have "lstrip s = strip s @ rev (takeWhile isspace (rev (lstrip s)))"
    unfolding strip_def by (rule rstrip_decomp)
  finally show ?thesis by blast
qed

lemma contains_strip: "contains sub (strip s) \<Longrightarrow> contains sub s"
proof -
  assume c: "contains sub (strip s)"
  obtain a b where "s = a @ strip s @ b" using strip_sublist by blast
  with contains_appendI [OF c, of a b] show ?thesis by simp
qed

lemma trimmed_strip: "trimmed (strip s)"
proof (cases "strip s = []")
  case True
  then show ?thesis by (simp add: trimmed_def)
next
  case False
  have l: "\<not> isspace (last (strip s))"
  proof -
    from False have ne: "dropWhile isspace (rev (lstrip s)) \<noteq> []"
      by (simp add: strip_def rstrip_def)
    then have "\<not> isspace (hd (dropWhile isspace (rev (lstrip s))))" by (rule hd_dropWhile)
    with ne show ?thesis by (simp add: strip_def rstrip_def last_rev)
  qed
  have h: "\<not> isspace (hd (strip s))"
  proof -
    have eq: "strip s = lstrip (rstrip s)" by (simp add: strip_def lstrip_rstrip_commute)
    with False have "dropWhile isspace (rstrip s) \<noteq> []" by (simp add: lstrip_def)
    then have "\<not> isspace (hd (dropWhile isspace (rstrip s)))" by (rule hd_dropWhile)
    then show ?thesis by (simp add: eq lstrip_def)
  qed
  from h l show ?thesis by (simp add: trimmed_def)
qed

subsection \<open>The loop in closed form\<close>

lemma candidate_two_pieces: "contains ''A:'' line \<Longrightarrow> 2 \<le> length (split_py ''A:'' line)"
  by (rule split_py_length2) simp_all

lemma parse_lines_skip: "\<not> candidate l \<Longrightarrow> parse_lines (l # ls) acc = parse_lines ls acc"
  by (auto simp: candidate_def)

lemma parse_lines_take:
  assumes "candidate l"
  shows "parse_lines (l # ls) acc = parse_lines ls (acc @ [line_pair l])"
proof -
  from assms have c: "contains ''Q:'' l" "contains ''A:'' l" by (simp_all add: candidate_def)
  then have "2 \<le> length (split_py ''A:'' l)" by (simp add: candidate_two_pieces)
  then have "getitem (split_py ''A:'' l) 0 = Inr (split_py ''A:'' l ! 0)"
    and "getitem (split_py ''A:'' l) 1 = Inr (split_py ''A:'' l ! 1)"
    by (auto simp: getitem_def)
  with c show ?thesis by (simp add: line_pair_def)
qed

lemma parse_lines_closed:
  "parse_lines ls acc = Inr (acc @ map line_pair (filter candidate ls))"
proof (induction ls arbitrary: acc)
  case Nil
  then show ?case by simp
next
  case (Cons l ls)
  then show ?case
    by (cases "candidate l") (simp_all add: parse_lines_take parse_lines_skip del: parse_lines.simps)
qed

lemma parse_faq_input_closed:
  "parse_faq_input raw_text =
     Inr (map line_pair (filter candidate (split_py [NL] (strip raw_text))))"
  by (simp add: parse_faq_input_def parse_lines_closed)

lemma line_pair_first:
  assumes "line = p @ ''A:'' @ r" and "\<not> contains ''A:'' (p @ ''A'')"
  shows "line_pair line = (strip (replace_py ''Q:'' [] p), strip (split_py ''A:'' r ! 0))"
proof -
  have "split_py ''A:'' line = p # split_py ''A:'' r"
    unfolding assms(1) using assms(2) by (intro split_py_first) simp_all
  then show ?thesis by (simp add: line_pair_def)
qed

lemma split_py_head_none: "\<not> contains sep r \<Longrightarrow> split_py sep r ! 0 = r"
  by (simp add: split_py_no_sep)

lemma split_py_head_first:
  assumes "sep \<noteq> []" and "\<not> contains sep (m @ butlast sep)"
  shows "split_py sep (m @ sep @ t) ! 0 = m"
  using split_py_first [OF assms, of t] by simp

section \<open>The pairs of parse\_faq\_input\<close>

lemma line_pair_trimmed: "trimmed (fst (line_pair l)) \<and> trimmed (snd (line_pair l))"
  by (simp add: line_pair_def trimmed_strip)

text \<open>
  Claim C6, as amended. \<open>parse_faq_input\<close> never fails and drops no candidate line: it
  returns one pair for every line (of the trimmed text) that contains both markers,
  and the question and the answer of every pair are trimmed; either may be empty.
\<close>

theorem parse_faq_input_keeps_every_candidate:
  "\<exists>qa_pairs.
     parse_faq_input raw_text = Inr qa_pairs \<and>
     length qa_pairs = length (filter candidate (split_py [NL] (strip raw_text))) \<and>
     (\<forall>(q, a)\<in>set qa_pairs. trimmed q \<and> trimmed a)"
proof -
  let ?qa = "map line_pair (filter candidate (split_py [NL] (strip raw_text)))"
  have "parse_faq_input raw_text = Inr ?qa" by (rule parse_faq_input_closed)
  moreover have "length ?qa = length (filter candidate (split_py [NL] (strip raw_text)))"
    by simp
  moreover have "\<forall>(q, a)\<in>set ?qa. trimmed q \<and> trimmed a"
    using line_pair_trimmed by (auto simp: case_prod_beta)
  ultimately show ?thesis by blast
qed

text \<open>A line with an empty answer and a line with an empty question are both kept.\<close>

theorem parse_faq_input_empty_parts_counterexample:
  "parse_faq_input (''Q: Where are you? A:'' @ [NL] @ ''Q: A: Main Street'') =
     Inr [(''Where are you?'', []), ([], ''Main Street'')]"
  by (simp add: parse_faq_input_def strip_def lstrip_def rstrip_def isspace_def NL_def
      getitem_def)

text \<open>A text with one candidate line, whose answer is empty, and one other line.\<close>

theorem parse_faq_input_keeps_every_candidate_witness:
  "parse_faq_input (''Q: Where are you? A:'' @ [NL] @ ''see the map'') =
     Inr [(''Where are you?'', [])] \<and>
   trimmed ''Where are you?'' \<and> trimmed []"
proof -
  let ?raw = "''Q: Where are you? A:'' @ [NL] @ ''see the map''"
  have c: "filter candidate (split_py [NL] (strip ?raw)) = [''Q: Where are you? A:'']"
    by (simp add: candidate_def strip_def lstrip_def rstrip_def isspace_def NL_def)
  have v: "parse_faq_input ?raw = Inr [(''Where are you?'', [])]"
    by (simp add: parse_faq_input_def strip_def lstrip_def rstrip_def isspace_def NL_def
        getitem_def)
  from parse_faq_input_keeps_every_candidate [of ?raw] obtain qa_pairs where
    p: "parse_faq_input ?raw = Inr qa_pairs" and
    n: "length qa_pairs = length (filter candidate (split_py [NL] (strip ?raw)))" and
    t: "\<forall>(q, a)\<in>set qa_pairs. trimmed q \<and> trimmed a"
    by blast
  from p v have "qa_pairs = [(''Where are you?'', [])]" by simp
  with t v show ?thesis by simp
qed

text \<open>
  Claim C7, as amended. A text without markers gives the empty list, without error.
  In general the result has one pair per line containing both \<open>Q:\<close> and \<open>A:\<close>, in order.
  For such a line, cut at its first \<open>A:\<close> into \<open>p\<close> and \<open>r\<close>: the question is \<open>p\<close> with
  every \<open>Q:\<close> removed, trimmed; the answer is \<open>r\<close> trimmed when \<open>r\<close> has no further \<open>A:\<close>,
  and otherwise the part of \<open>r\<close> before its first \<open>A:\<close>, trimmed.
\<close>

theorem parse_faq_input_line_rule:
  "parse_faq_input ''no markers here'' = Inr [] \<and>
   (\<exists>qa_pairs.
      parse_faq_input raw_text = Inr qa_pairs \<and>
      length qa_pairs = length (filter candidate (split_py [NL] (strip raw_text))) \<and>
      (\<forall>i p r.
         i < length qa_pairs \<and>
         filter candidate (split_py [NL] (strip raw_text)) ! i = p @ ''A:'' @ r \<and>
         \<not> contains ''A:'' (p @ ''A'') \<longrightarrow>
           fst (qa_pairs ! i) = strip (replace_py ''Q:'' [] p) \<and>
           (\<not> contains ''A:'' r \<longrightarrow> snd (qa_pairs ! i) = strip r) \<and>
           (\<forall>m t. r = m @ ''A:'' @ t \<and> \<not> contains ''A:'' (m @ ''A'') \<longrightarrow>
              snd (qa_pairs ! i) = strip m)))"
proof
  show "parse_faq_input ''no markers here'' = Inr []"
    by (simp add: parse_faq_input_def strip_def lstrip_def rstrip_def isspace_def NL_def)
next
  let ?cands = "filter candidate (split_py [NL] (strip raw_text))"
  let ?qa = "map line_pair ?cands"
  have 1: "parse_faq_input raw_text = Inr ?qa" by (rule parse_faq_input_closed)
  have 2: "length ?qa = length ?cands" by simp
  have 3: "fst (?qa ! i) = strip (replace_py ''Q:'' [] p) \<and>
           (\<not> contains ''A:'' r \<longrightarrow> snd (?qa ! i) = strip r) \<and>
           (\<forall>m t. r = m @ ''A:'' @ t \<and> \<not> contains ''A:'' (m @ ''A'') \<longrightarrow>
              snd (?qa ! i) = strip m)"
    if "i < length ?qa \<and> ?cands ! i = p @ ''A:'' @ r \<and> \<not> contains ''A:'' (p @ ''A'')"
    for i p r
  proof -
    from that have i: "i < length ?cands" and l: "?cands ! i = p @ ''A:'' @ r"
      and f: "\<not> contains ''A:'' (p @ ''A'')" by simp_all
    from i have "?qa ! i = line_pair (?cands ! i)" by simp
    also have "\<dots> = (strip (replace_py ''Q:'' [] p), strip (split_py ''A:'' r ! 0))"
      using l f by (rule line_pair_first)
    finally have q: "?qa ! i = (strip (replace_py ''Q:'' [] p), strip (split_py ''A:'' r ! 0))" .
    have "split_py ''A:'' r ! 0 = r" if "\<not> contains ''A:'' r"
      using that by (rule split_py_head_none)
    moreover have "split_py ''A:'' r ! 0 = m"
      if "r = m @ ''A:'' @ t \<and> \<not> contains ''A:'' (m @ ''A'')" for m t
      using that split_py_head_first [of "''A:''" m t] by simp
    ultimately show ?thesis using q by simp
  qed
  from 1 2 3 show "\<exists>qa_pairs.
      parse_faq_input raw_text = Inr qa_pairs \<and>
      length qa_pairs = length ?cands \<and>
      (\<forall>i p r.
         i < length qa_pairs \<and> ?cands ! i = p @ ''A:'' @ r \<and> \<not> contains ''A:'' (p @ ''A'') \<longrightarrow>
           fst (qa_pairs ! i) = strip (replace_py ''Q:'' [] p) \<and>
           (\<not> contains ''A:'' r \<longrightarrow> snd (qa_pairs ! i) = strip r) \<and>
           (\<forall>m t. r = m @ ''A:'' @ t \<and> \<not> contains ''A:'' (m @ ''A'') \<longrightarrow>
              snd (qa_pairs ! i) = strip m))"
    by blast
qed

text \<open>
  With a second \<open>A:\<close> in the line the answer stops before it: it is not the whole
  portion after the first \<open>A:\<close>.
\<close>

theorem parse_faq_input_second_marker_counterexample:
  "parse_faq_input ''Q: Which plan? A: Plan A: basic'' = Inr [(''Which plan?'', ''Plan'')] \<and>
   strip '' Plan A: basic'' = ''Plan A: basic''"
  by (simp add: parse_faq_input_def strip_def lstrip_def rstrip_def isspace_def NL_def
      getitem_def)

theorem parse_faq_input_line_rule_witness:
  "parse_faq_input (''memo'' @ [NL] @ ''Q: Which plan? A: Plan A: basic'') =
     Inr [(''Which plan?'', ''Plan'')]"
proof -
  let ?raw = "''memo'' @ [NL] @ ''Q: Which plan? A: Plan A: basic''"
  have c: "filter candidate (split_py [NL] (strip ?raw)) = [''Q: Which plan? A: Plan A: basic'']"
    by (simp add: candidate_def strip_def lstrip_def rstrip_def isspace_def NL_def)
  from parse_faq_input_line_rule [of ?raw] obtain qa_pairs where
    1: "parse_faq_input ?raw = Inr qa_pairs" and
    2: "length qa_pairs = length (filter candidate (split_py [NL] (strip ?raw)))" and
    3: "\<And>i p r. i < length qa_pairs \<and>
         filter candidate (split_py [NL] (strip ?raw)) ! i = p @ ''A:'' @ r \<and>
         \<not> contains ''A:'' (p @ ''A'') \<Longrightarrow>
           fst (qa_pairs ! i) = strip (replace_py ''Q:'' [] p) \<and>
           (\<not> contains ''A:'' r \<longrightarrow> snd (qa_pairs ! i) = strip r) \<and>
           (\<forall>m t. r = m @ ''A:'' @ t \<and> \<not> contains ''A:'' (m @ ''A'') \<longrightarrow>
              snd (qa_pairs ! i) = strip m)"
    by blast
  from 2 c have len: "length qa_pairs = 1" by simp
  have "0 < length qa_pairs \<and>
        filter candidate (split_py [NL] (strip ?raw)) ! 0 =
          ''Q: Which plan? '' @ ''A:'' @ '' Plan A: basic'' \<and>
        \<not> contains ''A:'' (''Q: Which plan? '' @ ''A'')"
    using len c by simp
  from 3 [OF this] have
    f: "fst (qa_pairs ! 0) = strip (replace_py ''Q:'' [] ''Q: Which plan? '')" and
    s: "\<forall>m t. '' Plan A: basic'' = m @ ''A:'' @ t \<and> \<not> contains ''A:'' (m @ ''A'') \<longrightarrow>
              snd (qa_pairs ! 0) = strip m"
    by blast+
  have "'' Plan A: basic'' = '' Plan '' @ ''A:'' @ '' basic'' \<and>
        \<not> contains ''A:'' ('' Plan '' @ ''A'')" by simp
  with s have s': "snd (qa_pairs ! 0) = strip '' Plan ''" by blast
  have "qa_pairs = [qa_pairs ! 0]" using len by (cases qa_pairs) auto
  also have "qa_pairs ! 0 = (''Which plan?'', ''Plan'')"
    using f s' by (simp add: prod_eq_iff strip_def lstrip_def rstrip_def isspace_def)
  finally show ?thesis using 1 by simp
qed

section \<open>Well-formed lines\<close>

subsection \<open>Counting occurrences\<close>

lemma count_occ_zero_iff: "sub \<noteq> [] \<Longrightarrow> count_occ sub s = 0 \<longleftrightarrow> \<not> contains sub s"
  by (induction s) auto

lemma count_occ_append_right: "count_occ sub b \<le> count_occ sub (a @ b)"
  by (induction a) auto

lemma count_occ_split:
  assumes "length t < length sub" and "prefix t s"
  shows "count_occ sub (p @ t) + count_occ sub s \<le> count_occ sub (p @ s)"
proof (induction p)
  case Nil
  have "\<not> contains sub t" using assms(1) by (rule short_not_contains)
  moreover have "sub \<noteq> []" using assms(1) by auto
  ultimately have "count_occ sub t = 0" by (simp add: count_occ_zero_iff)
  then show ?case by simp
next
  case (Cons c p)
  from assms(2) obtain t' where s: "s = t @ t'" by (auto simp: prefix_def)
  have "prefix sub (c # p @ s)" if "prefix sub (c # p @ t)"
  proof -
    from that have "prefix sub ((c # p @ t) @ t')" by (rule prefix_prefix)
    then show ?thesis by (simp add: s)
  qed
  with Cons.IH show ?case by auto
qed

lemma exactly_one_occurrence:
  assumes "sub \<noteq> []" and "count_occ sub (p @ sub @ r) = 1"
  shows "\<not> contains sub (p @ butlast sub) \<and> \<not> contains sub r"
proof -
  have "count_occ sub (p @ butlast sub) + count_occ sub (sub @ r) \<le> count_occ sub (p @ sub @ r)"
    using assms(1) by (intro count_occ_split) (simp_all add: prefix_def, metis append_butlast_last_id append_assoc)
  moreover obtain c sub' where sub: "sub = c # sub'" using assms(1) by (cases sub) auto
  have "count_occ sub (sub @ r) = 1 + count_occ sub (sub' @ r)" by (simp add: sub)
  moreover have "count_occ sub r \<le> count_occ sub (sub' @ r)" by (rule count_occ_append_right)
  ultimately have "count_occ sub (p @ butlast sub) = 0" and "count_occ sub r = 0"
    using assms(2) by simp_all
  then show ?thesis using assms(1) by (simp add: count_occ_zero_iff)
qed

subsection \<open>replace\<close>

lemma replace_py_none: "\<not> contains old s \<Longrightarrow> replace_py old new s = s"
  by (induction s) auto

lemma replace_py_first:
  assumes "old \<noteq> []" and "\<not> contains old (p @ butlast old)"
  shows "replace_py old new (p @ old @ r) = p @ new @ replace_py old new r"
  using assms(2)
proof (induction p)
  case Nil
  from assms(1) obtain c cs where "old = c # cs" by (cases old) auto
  then show ?case by simp
next
  case (Cons c p)
  from Cons.prems have np: "\<not> prefix old ((c # p) @ old @ r)"
    using assms(1) by (rule not_prefix_of_first [rotated])
  from Cons.prems have "\<not> contains old (p @ butlast old)" by simp
  with Cons.IH have "replace_py old new (p @ old @ r) = p @ new @ replace_py old new r" by simp
  with np show ?case by simp
qed

subsection \<open>A marker across a seam\<close>

lemma contains_pair_append:
  assumes "contains [a, b] (x @ y)"
  shows "contains [a, b] x \<or> contains [a, b] y \<or> (\<exists>x' y'. x = x' @ [a] \<and> y = b # y')"
  using assms
proof (induction x)
  case Nil
  then show ?case by simp
next
  case (Cons c x)
  from Cons.prems consider "prefix [a, b] (c # x @ y)" | "contains [a, b] (x @ y)" by auto
  then show ?case
  proof cases
    case 1
    show ?thesis
    proof (cases x)
      case Nil
      with 1 have "c # x = [] @ [a]" and "\<exists>y'. y = b # y'" by (auto simp: prefix_def)
      then show ?thesis by blast
    next
      case (Cons d x')
      with 1 have "prefix [a, b] (c # x)" by (auto simp: prefix_def)
      then show ?thesis by simp
    qed
  next
    case 2
    with Cons.IH consider "contains [a, b] x" | "contains [a, b] y"
      | x' y' where "x = x' @ [a]" "y = b # y'" by blast
    then show ?thesis
    proof cases
      case 1
      then show ?thesis by simp
    next
      case 2
      then show ?thesis by simp
    next
      case 3
      then have "c # x = (c # x') @ [a]" by simp
      with 3(2) show ?thesis by blast
    qed
  qed
qed

subsection \<open>Lines with one question marker and one answer marker\<close>

lemma marked_lineI:
  assumes "l = u @ ''Q:'' @ v @ ''A:'' @ w"
    and "count_occ ''Q:'' l = 1" and "count_occ ''A:'' l = 1"
  shows "marked_line l u v w"
proof -
  have "count_occ ''Q:'' (u @ ''Q:'' @ (v @ ''A:'' @ w)) = 1" using assms(1,2) by simp
  then have q: "\<not> contains ''Q:'' (u @ butlast ''Q:'') \<and> \<not> contains ''Q:'' (v @ ''A:'' @ w)"
    by (intro exactly_one_occurrence) simp_all
  have "count_occ ''A:'' ((u @ ''Q:'' @ v) @ ''A:'' @ w) = 1" using assms(1,3) by simp
  then have "\<not> contains ''A:'' ((u @ ''Q:'' @ v) @ butlast ''A:'') \<and> \<not> contains ''A:'' w"
    by (intro exactly_one_occurrence) simp_all
  with q assms(1) show ?thesis by (simp add: marked_line_def)
qed

lemma well_formed_line_marked:
  assumes "well_formed_line l"
  shows "\<exists>u v w. marked_line l u v w"
proof -
  from assms obtain x w where l: "l = x @ ''A:'' @ w" and "contains ''Q:'' x"
    by (auto simp: well_formed_line_def)
  then obtain u v where "x = u @ ''Q:'' @ v" by (auto simp: contains_iff)
  with l have "l = u @ ''Q:'' @ v @ ''A:'' @ w" by simp
  moreover from assms have "count_occ ''Q:'' l = 1" "count_occ ''A:'' l = 1"
    by (simp_all add: well_formed_line_def)
  ultimately have "marked_line l u v w" by (rule marked_lineI)
  then show ?thesis by blast
qed

lemma marked_line_candidate:
  assumes "marked_line l u v w"
  shows "candidate l"
proof -
  from assms have l: "l = u @ ''Q:'' @ v @ ''A:'' @ w" by (simp add: marked_line_def)
  have "contains ''Q:'' l" unfolding l contains_iff by blast
  moreover have "l = (u @ ''Q:'' @ v) @ ''A:'' @ w" using l by simp
  then have "contains ''A:'' l" unfolding contains_iff by blast
  ultimately show ?thesis by (simp add: candidate_def)
qed

lemma marked_line_pair:
  assumes "marked_line l u v w"
  shows "line_pair l = (strip (u @ v), strip w)"
proof -
  from assms have l: "l = (u @ ''Q:'' @ v) @ ''A:'' @ w"
    and a: "\<not> contains ''A:'' ((u @ ''Q:'' @ v) @ ''A'')" and w: "\<not> contains ''A:'' w"
    and q: "\<not> contains ''Q:'' (u @ ''Q'')" and v: "\<not> contains ''Q:'' (v @ ''A:'' @ w)"
    by (simp_all add: marked_line_def)
  have "line_pair l = (strip (replace_py ''Q:'' [] (u @ ''Q:'' @ v)), strip (split_py ''A:'' w ! 0))"
    using l a by (rule line_pair_first)
  moreover have "split_py ''A:'' w ! 0 = w" using w by (rule split_py_head_none)
  moreover have "replace_py ''Q:'' [] (u @ ''Q:'' @ v) = u @ [] @ replace_py ''Q:'' [] v"
    using q by (intro replace_py_first) simp_all
  moreover have "\<not> contains ''Q:'' v" using v contains_append_left by blast
  then have "replace_py ''Q:'' [] v = v" by (rule replace_py_none)
  ultimately show ?thesis by simp
qed

lemma marked_line_free:
  assumes "marked_line l u v w" and "\<not> contains ''QQ::'' l" and "\<not> contains ''AQ::'' l"
  shows "\<not> contains ''Q:'' (u @ v) \<and> \<not> contains ''A:'' (u @ v) \<and>
         \<not> contains ''Q:'' w \<and> \<not> contains ''A:'' w"
proof -
  from assms(1) have l: "l = u @ ''Q:'' @ v @ ''A:'' @ w"
    and a: "\<not> contains ''A:'' (u @ ''Q:'' @ v @ ''A'')" and w: "\<not> contains ''A:'' w"
    and q: "\<not> contains ''Q:'' (u @ ''Q'')" and v: "\<not> contains ''Q:'' (v @ ''A:'' @ w)"
    by (simp_all add: marked_line_def)
  have qu: "\<not> contains ''Q:'' u" using q contains_append_left by blast
  have qv: "\<not> contains ''Q:'' v" using v contains_append_left by blast
  have qw: "\<not> contains ''Q:'' w"
    using v contains_append_right [of "''Q:''" w "v @ ''A:''"] by auto
  have au: "\<not> contains ''A:'' u" using a contains_append_left by blast
  have av: "\<not> contains ''A:'' v"
    using a contains_appendI [of "''A:''" v "u @ ''Q:''" "''A''"] by auto
  have seam: "\<not> (\<exists>x' y'. u = x' @ [c] \<and> v = CHR '':'' # y')" if "c = CHR ''Q'' \<or> c = CHR ''A''" for c
  proof
    assume "\<exists>x' y'. u = x' @ [c] \<and> v = CHR '':'' # y'"
    then obtain x' y' where "u = x' @ [c]" "v = CHR '':'' # y'" by blast
    then have "l = x' @ ([c] @ ''Q::'') @ (y' @ ''A:'' @ w)" using l by simp
    then have "contains ([c] @ ''Q::'') l" unfolding contains_iff by blast
    with that assms(2,3) show False by auto
  qed
  have "\<not> contains ''Q:'' (u @ v)"
    using contains_pair_append [of "CHR ''Q''" "CHR '':''" u v] qu qv seam [of "CHR ''Q''"]
    by auto
  moreover have "\<not> contains ''A:'' (u @ v)"
    using contains_pair_append [of "CHR ''A''" "CHR '':''" u v] au av seam [of "CHR ''A''"]
    by auto
  ultimately show ?thesis using qw w by simp
qed

lemma nonspace_marks [simp]: "\<not> isspace CHR ''Q''" "\<not> isspace CHR '':''"
  by (simp_all add: isspace_def)

lemma marked_line_lstrip:
  assumes "marked_line l u v w"
  shows "marked_line (lstrip l) (lstrip u) v w"
proof -
  from assms have l: "l = u @ ''Q:'' @ v @ ''A:'' @ w"
    and a: "\<not> contains ''A:'' (u @ ''Q:'' @ v @ ''A'')" and w: "\<not> contains ''A:'' w"
    and q: "\<not> contains ''Q:'' (u @ ''Q'')" and v: "\<not> contains ''Q:'' (v @ ''A:'' @ w)"
    by (simp_all add: marked_line_def)
  have "lstrip l = lstrip u @ ''Q:'' @ v @ ''A:'' @ w"
    unfolding l by (rule lstrip_append_nonspace) simp_all
  moreover have "\<not> contains ''Q:'' (lstrip u @ ''Q'')"
  proof
    assume "contains ''Q:'' (lstrip u @ ''Q'')"
    then have "contains ''Q:'' (takeWhile isspace u @ (lstrip u @ ''Q''))"
      by (rule contains_append_right)
    then have "contains ''Q:'' ((takeWhile isspace u @ lstrip u) @ ''Q'')" by simp
    with q show False by (simp only: lstrip_decomp [symmetric])
  qed
  moreover have "\<not> contains ''A:'' (lstrip u @ ''Q:'' @ v @ ''A'')"
  proof
    assume "contains ''A:'' (lstrip u @ ''Q:'' @ v @ ''A'')"
    then have "contains ''A:'' (takeWhile isspace u @ (lstrip u @ ''Q:'' @ v @ ''A''))"
      by (rule contains_append_right)
    then have "contains ''A:'' ((takeWhile isspace u @ lstrip u) @ ''Q:'' @ v @ ''A'')" by simp
    with a show False by (simp only: lstrip_decomp [symmetric])
  qed
  ultimately show ?thesis using v w by (simp add: marked_line_def)
qed

lemma marked_line_rstrip:
  assumes "marked_line l u v w"
  shows "marked_line (rstrip l) u v (rstrip w)"
proof -
  from assms have l: "l = u @ ''Q:'' @ v @ ''A:'' @ w"
    and a: "\<not> contains ''A:'' (u @ ''Q:'' @ v @ ''A'')" and w: "\<not> contains ''A:'' w"
    and q: "\<not> contains ''Q:'' (u @ ''Q'')" and v: "\<not> contains ''Q:'' (v @ ''A:'' @ w)"
    by (simp_all add: marked_line_def)
  have "rstrip ((u @ ''Q:'' @ v @ ''A:'') @ w) = (u @ ''Q:'' @ v @ ''A:'') @ rstrip w"
    by (rule rstrip_append_nonspace) simp_all
  then have "rstrip l = u @ ''Q:'' @ v @ ''A:'' @ rstrip w" by (simp add: l)
  moreover obtain t where t: "w = rstrip w @ t" using rstrip_decomp by blast
  have "\<not> contains ''A:'' (rstrip w)"
  proof
    assume "contains ''A:'' (rstrip w)"
    then have "contains ''A:'' (rstrip w @ t)" by (rule contains_append_left)
    with w t show False by simp
  qed
  moreover have "\<not> contains ''Q:'' (v @ ''A:'' @ rstrip w)"
  proof
    assume "contains ''Q:'' (v @ ''A:'' @ rstrip w)"
    then have "contains ''Q:'' ((v @ ''A:'' @ rstrip w) @ t)" by (rule contains_append_left)
    then have "contains ''Q:'' (v @ ''A:'' @ (rstrip w @ t))" by simp
    with v t show False by simp
  qed
  ultimately show ?thesis using a q by (simp add: marked_line_def)
qed

subsection \<open>A text made of lines\<close>

lemma contains_single: "contains [c] s \<longleftrightarrow> c \<in> set s"
  by (induction s) auto

lemma join_lines_Cons: "rest \<noteq> [] \<Longrightarrow> join_lines (l # rest) = l @ [NL] @ join_lines rest"
  by (cases rest) simp_all

lemma join_lines_snoc: "xs \<noteq> [] \<Longrightarrow> join_lines (xs @ [l]) = join_lines xs @ [NL] @ l"
  by (induction xs rule: join_lines.induct) simp_all

lemma split_join_lines:
  assumes "ls \<noteq> []" and "\<forall>l\<in>set ls. NL \<notin> set l"
  shows "split_py [NL] (join_lines ls) = ls"
  using assms
proof (induction ls rule: join_lines.induct)
  case 1
  then show ?case by simp
next
  case (2 l)
  then have "\<not> contains [NL] l" by (simp add: contains_single)
  then show ?case by (simp add: split_py_no_sep)
next
  case (3 l l' ls)
  then have "\<not> contains [NL] (l @ butlast [NL])" by (simp add: contains_single)
  then have "split_py [NL] (l @ [NL] @ join_lines (l' # ls)) = l # split_py [NL] (join_lines (l' # ls))"
    by (intro split_py_first) simp_all
  with 3 show ?case by simp
qed

lemma lstrip_solid: "\<exists>c\<in>set l. \<not> isspace c \<Longrightarrow> lstrip (l @ x) = lstrip l @ x"
  by (auto simp: lstrip_def dropWhile_append1)

lemma rstrip_solid:
  assumes "\<exists>c\<in>set l. \<not> isspace c"
  shows "rstrip (x @ l) = x @ rstrip l"
proof -
  from assms have "\<exists>c\<in>set (rev l). \<not> isspace c" by simp
  then have "lstrip (rev l @ rev x) = lstrip (rev l) @ rev x" by (rule lstrip_solid)
  then show ?thesis by (simp add: rstrip_def lstrip_def)
qed

lemma lstrip_join_lines:
  assumes "\<exists>c\<in>set l. \<not> isspace c"
  shows "lstrip (join_lines (l # rest)) = join_lines (lstrip l # rest)"
proof (cases rest)
  case Nil
  then show ?thesis by simp
next
  case (Cons a as)
  then show ?thesis using lstrip_solid [OF assms] by simp
qed

lemma rstrip_join_lines:
  assumes "\<exists>c\<in>set l. \<not> isspace c"
  shows "rstrip (join_lines (xs @ [l])) = join_lines (xs @ [rstrip l])"
proof (cases "xs = []")
  case True
  then show ?thesis by simp
next
  case False
  have "rstrip ((join_lines xs @ [NL]) @ l) = (join_lines xs @ [NL]) @ rstrip l"
    using assms by (rule rstrip_solid)
  with False show ?thesis by (simp add: join_lines_snoc)
qed

lemma lstrip_keeps_solid: "\<exists>c\<in>set l. \<not> isspace c \<Longrightarrow> \<exists>c\<in>set (lstrip l). \<not> isspace c"
proof -
  assume a: "\<exists>c\<in>set l. \<not> isspace c"
  have "set l = set (takeWhile isspace l) \<union> set (lstrip l)"
    using lstrip_decomp [of l] by (metis set_append)
  with a show ?thesis by (auto dest: set_takeWhileD)
qed

text \<open>A line and what trimming the whole text can make of it.\<close>

lemma strip_join_lines:
  assumes "ls \<noteq> []" and "\<forall>l\<in>set ls. \<exists>c\<in>set l. \<not> isspace c"
  shows "\<exists>ls'. strip (join_lines ls) = join_lines ls' \<and>
           list_all2 (\<lambda>l' l. l' = l \<or> l' = lstrip l \<or> l' = rstrip l \<or> l' = rstrip (lstrip l)) ls' ls"
    (is "\<exists>ls'. _ \<and> list_all2 ?V ls' ls")
proof -
  from assms(1) obtain l rest where ls: "ls = l # rest" by (cases ls) auto
  with assms(2) have solid: "\<exists>c\<in>set l. \<not> isspace c" by simp
  then have 1: "lstrip (join_lines ls) = join_lines (lstrip l # rest)"
    unfolding ls by (rule lstrip_join_lines)
  have refl: "list_all2 ?V ys ys" for ys by (rule list_all2_refl) simp
  show ?thesis
  proof (cases "rest = []")
    case True
    with 1 have "strip (join_lines ls) = join_lines [rstrip (lstrip l)]"
      by (simp add: strip_def)
    moreover have "list_all2 ?V [rstrip (lstrip l)] ls" using True ls by simp
    ultimately show ?thesis by blast
  next
    case False
    then obtain ys z where rest: "rest = ys @ [z]" by (metis rev_exhaust)
    with assms(2) ls have "\<exists>c\<in>set z. \<not> isspace c" by simp
    then have "rstrip (join_lines ((lstrip l # ys) @ [z])) = join_lines ((lstrip l # ys) @ [rstrip z])"
      by (rule rstrip_join_lines)
    with 1 rest have "strip (join_lines ls) = join_lines (lstrip l # ys @ [rstrip z])"
      by (simp add: strip_def)
    moreover have "list_all2 ?V (lstrip l # ys @ [rstrip z]) (l # ys @ [z])"
      using refl [of ys] by (auto intro!: list_all2_appendI)
    ultimately show ?thesis using ls rest by blast
  qed
qed

lemma marked_line_variant:
  assumes "marked_line l u v w"
    and "l' = l \<or> l' = lstrip l \<or> l' = rstrip l \<or> l' = rstrip (lstrip l)"
  shows "candidate l' \<and> line_pair l' = line_pair l"
proof -
  have base: "line_pair l = (strip (u @ v), strip w)" using assms(1) by (rule marked_line_pair)
  from assms(2) consider "l' = l" | "l' = lstrip l" | "l' = rstrip l" | "l' = rstrip (lstrip l)"
    by blast
  then obtain u' w' where m: "marked_line l' u' v w'"
    and e: "strip (u' @ v) = strip (u @ v)" "strip w' = strip w"
  proof cases
    case 1
    with assms(1) that show ?thesis by blast
  next
    case 2
    with marked_line_lstrip [OF assms(1)] that [of "lstrip u" w] show ?thesis
      by (simp add: strip_lstrip_append)
  next
    case 3
    with marked_line_rstrip [OF assms(1)] that [of u "rstrip w"] show ?thesis
      by (simp add: strip_rstrip)
  next
    case 4
    with marked_line_rstrip [OF marked_line_lstrip [OF assms(1)]] that [of "lstrip u" "rstrip w"]
    show ?thesis by (simp add: strip_lstrip_append strip_rstrip)
  qed
  from m have "candidate l'" by (rule marked_line_candidate)
  moreover from m have "line_pair l' = (strip (u' @ v), strip w')" by (rule marked_line_pair)
  ultimately show ?thesis using base e by simp
qed

lemma variant_no_newline:
  assumes "NL \<notin> set l"
    and "l' = l \<or> l' = lstrip l \<or> l' = rstrip l \<or> l' = rstrip (lstrip l)"
  shows "NL \<notin> set l'"
proof -
  have a: "set (lstrip s) \<subseteq> set s" for s by (auto simp: lstrip_def dest: set_dropWhileD)
  have b: "set (rstrip s) \<subseteq> set s" for s by (auto simp: rstrip_def dest: set_dropWhileD)
  from a [of l] b [of l] b [of "lstrip l"] assms show ?thesis by auto
qed

lemma parse_faq_input_join_lines:
  assumes "\<forall>l\<in>set ls. well_formed_line l"
  shows "parse_faq_input (join_lines ls) = Inr (map line_pair ls)"
proof (cases "ls = []")
  case True
  have "\<not> candidate []" by (simp add: candidate_def)
  then show ?thesis
    using True by (simp add: parse_faq_input_closed strip_def lstrip_def rstrip_def)
next
  case False
  let ?V = "\<lambda>l' l. l' = l \<or> l' = lstrip l \<or> l' = rstrip l \<or> l' = rstrip (lstrip l)"
  have marked: "\<exists>u v w. marked_line l u v w" if "l \<in> set ls" for l
    using that assms well_formed_line_marked by blast
  have "\<exists>c\<in>set l. \<not> isspace c" if "l \<in> set ls" for l
  proof -
    from marked [OF that] obtain u v w where "marked_line l u v w" by blast
    then have "CHR ''Q'' \<in> set l" by (simp add: marked_line_def)
    then show ?thesis by (rule bexI [rotated]) simp
  qed
  with False obtain ls' where s: "strip (join_lines ls) = join_lines ls'"
    and v: "list_all2 ?V ls' ls"
    using strip_join_lines [of ls] by blast
  from v have len: "length ls' = length ls" by (rule list_all2_lengthD)
  have each: "candidate (ls' ! i) \<and> line_pair (ls' ! i) = line_pair (ls ! i) \<and> NL \<notin> set (ls' ! i)"
    if "i < length ls" for i
  proof -
    from that have in_ls: "ls ! i \<in> set ls" by simp
    from v that have var: "?V (ls' ! i) (ls ! i)" by (simp add: list_all2_conv_all_nth)
    from marked [OF in_ls] obtain u v w where "marked_line (ls ! i) u v w" by blast
    from marked_line_variant [OF this var]
    have "candidate (ls' ! i) \<and> line_pair (ls' ! i) = line_pair (ls ! i)" .
    moreover from assms in_ls have "NL \<notin> set (ls ! i)" by (simp add: well_formed_line_def)
    then have "NL \<notin> set (ls' ! i)" using var by (rule variant_no_newline)
    ultimately show ?thesis by simp
  qed
  have "\<forall>l\<in>set ls'. NL \<notin> set l" using each len by (auto simp: in_set_conv_nth)
  moreover have "ls' \<noteq> []" using False len by auto
  ultimately have "split_py [NL] (join_lines ls') = ls'" by (intro split_join_lines)
  moreover have "filter candidate ls' = ls'"
    using each len by (auto simp: filter_id_conv in_set_conv_nth)
  moreover have "map line_pair ls' = map line_pair ls"
    using each len by (auto intro: nth_equalityI)
  ultimately show ?thesis by (simp add: parse_faq_input_closed s)
qed

text \<open>
  Claim C1, as amended. Take a text made of lines each of which has exactly one \<open>Q:\<close>
  followed by exactly one \<open>A:\<close>, and in which the \<open>Q:\<close> does not stand between a \<open>Q\<close> or
  an \<open>A\<close> and a colon (the line contains neither \<open>QQ::\<close> nor \<open>AQ::\<close>). Then
  \<open>parse_faq_input\<close> returns one pair per line, in the order of the lines: for the line
  \<open>u Q: v A: w\<close> the question is \<open>u v\<close> trimmed and the answer is \<open>w\<close> trimmed; every
  question and answer is free of leading and trailing whitespace and contains neither
  marker. The text of the scenario, which has a line without markers, gives its two
  pairs.
\<close>

theorem parse_faq_input_well_formed:
  assumes "\<forall>l\<in>set ls. well_formed_line l \<and> \<not> contains ''QQ::'' l \<and> \<not> contains ''AQ::'' l"
  shows "(\<exists>qa_pairs.
            parse_faq_input (join_lines ls) = Inr qa_pairs \<and>
            length qa_pairs = length ls \<and>
            (\<forall>i u v w. i < length ls \<and> ls ! i = u @ ''Q:'' @ v @ ''A:'' @ w \<longrightarrow>
               qa_pairs ! i = (strip (u @ v), strip w)) \<and>
            (\<forall>(q, a)\<in>set qa_pairs.
               trimmed q \<and> trimmed a \<and>
               \<not> contains ''Q:'' q \<and> \<not> contains ''A:'' q \<and>
               \<not> contains ''Q:'' a \<and> \<not> contains ''A:'' a)) \<and>
         parse_faq_input
           (''Q: What are your hours? A: 9 to 5'' @ [NL] @ ''random line'' @ [NL] @
            ''Q: Open Sundays? A: No'') =
           Inr [(''What are your hours?'', ''9 to 5''), (''Open Sundays?'', ''No'')]"
proof
  let ?qa = "map line_pair ls"
  from assms have wf: "\<forall>l\<in>set ls. well_formed_line l" by blast
  then have 1: "parse_faq_input (join_lines ls) = Inr ?qa" by (rule parse_faq_input_join_lines)
  have 2: "length ?qa = length ls" by simp
  have 3: "?qa ! i = (strip (u @ v), strip w)"
    if "i < length ls \<and> ls ! i = u @ ''Q:'' @ v @ ''A:'' @ w" for i u v w
  proof -
    from that have i: "i < length ls" and eq: "ls ! i = u @ ''Q:'' @ v @ ''A:'' @ w"
      by blast+
    from i have "ls ! i \<in> set ls" by (rule nth_mem)
    with wf have "count_occ ''Q:'' (ls ! i) = 1" "count_occ ''A:'' (ls ! i) = 1"
      by (simp_all add: well_formed_line_def)
    with eq have "marked_line (ls ! i) u v w" by (intro marked_lineI)
    then have "line_pair (ls ! i) = (strip (u @ v), strip w)" by (rule marked_line_pair)
    with i show ?thesis by simp
  qed
  have 4: "trimmed q \<and> trimmed a \<and> \<not> contains ''Q:'' q \<and> \<not> contains ''A:'' q \<and>
           \<not> contains ''Q:'' a \<and> \<not> contains ''A:'' a"
    if "(q, a) \<in> set ?qa" for q a
  proof -
    from that obtain l where l: "l \<in> set ls" and qa: "(q, a) = line_pair l" by auto
    from wf l obtain u v w where m: "marked_line l u v w"
      using well_formed_line_marked by blast
    then have "line_pair l = (strip (u @ v), strip w)" by (rule marked_line_pair)
    with qa have q: "q = strip (u @ v)" and a: "a = strip w" by simp_all
    from assms l have "\<not> contains ''QQ::'' l" "\<not> contains ''AQ::'' l" by simp_all
    with m have "\<not> contains ''Q:'' (u @ v) \<and> \<not> contains ''A:'' (u @ v) \<and>
         \<not> contains ''Q:'' w \<and> \<not> contains ''A:'' w"
      by (rule marked_line_free)
    then have "\<not> contains ''Q:'' q \<and> \<not> contains ''A:'' q \<and>
         \<not> contains ''Q:'' a \<and> \<not> contains ''A:'' a"
      unfolding q a using contains_strip by blast
    moreover have "trimmed q" "trimmed a" unfolding q a by (rule trimmed_strip)+
    ultimately show ?thesis by simp
  qed
  from 1 2 3 4 show "\<exists>qa_pairs.
            parse_faq_input (join_lines ls) = Inr qa_pairs \<and>
            length qa_pairs = length ls \<and>
            (\<forall>i u v w. i < length ls \<and> ls ! i = u @ ''Q:'' @ v @ ''A:'' @ w \<longrightarrow>
               qa_pairs ! i = (strip (u @ v), strip w)) \<and>
            (\<forall>(q, a)\<in>set qa_pairs.
               trimmed q \<and> trimmed a \<and>
               \<not> contains ''Q:'' q \<and> \<not> contains ''A:'' q \<and>
               \<not> contains ''Q:'' a \<and> \<not> contains ''A:'' a)"
    by (intro exI [of _ ?qa]) (simp only: case_prod_beta, fastforce)
next
  show "parse_faq_input
           (''Q: What are your hours? A: 9 to 5'' @ [NL] @ ''random line'' @ [NL] @
            ''Q: Open Sundays? A: No'') =
           Inr [(''What are your hours?'', ''9 to 5''), (''Open Sundays?'', ''No'')]"
    by (simp add: parse_faq_input_def strip_def lstrip_def rstrip_def isspace_def NL_def
        getitem_def)
qed

text \<open>
  A line with exactly one \<open>Q:\<close> followed by exactly one \<open>A:\<close> whose question still holds a
  marker: taking \<open>Q:\<close> out of \<open>FAQ::\<close> leaves \<open>FA:\<close>.
\<close>

theorem parse_faq_input_marker_counterexample:
  "well_formed_line ''FAQ:: What are your hours? A: 9 to 5'' \<and>
   parse_faq_input (join_lines [''FAQ:: What are your hours? A: 9 to 5'']) =
     Inr [(''FA: What are your hours?'', ''9 to 5'')] \<and>
   contains ''A:'' ''FA: What are your hours?''"
proof -
  have "''FAQ:: What are your hours? A: 9 to 5'' = ''FAQ:: What are your hours? '' @ ''A:'' @ '' 9 to 5'' \<and>
        contains ''Q:'' ''FAQ:: What are your hours? ''"
    by simp
  then have "\<exists>u w. ''FAQ:: What are your hours? A: 9 to 5'' = u @ ''A:'' @ w \<and> contains ''Q:'' u"
    by blast
  then have "well_formed_line ''FAQ:: What are your hours? A: 9 to 5''"
    unfolding well_formed_line_def by (simp add: NL_def)
  moreover have "parse_faq_input (join_lines [''FAQ:: What are your hours? A: 9 to 5'']) =
     Inr [(''FA: What are your hours?'', ''9 to 5'')]"
    by (simp add: parse_faq_input_def strip_def lstrip_def rstrip_def isspace_def NL_def
        getitem_def)
  ultimately show ?thesis by simp
qed

text \<open>Two well-formed lines, the second with blanks around it.\<close>

theorem parse_faq_input_well_formed_witness:
  "well_formed_line ''Q: What are your hours? A: 9 to 5'' \<and>
   well_formed_line '' Q: Open Sundays? A: No  '' \<and>
   parse_faq_input
     (join_lines [''Q: What are your hours? A: 9 to 5'', '' Q: Open Sundays? A: No  '']) =
     Inr [(''What are your hours?'', ''9 to 5''), (''Open Sundays?'', ''No'')]"
proof -
  let ?l1 = "''Q: What are your hours? A: 9 to 5''"
  let ?l2 = "'' Q: Open Sundays? A: No  ''"
  have "?l1 = ''Q: What are your hours? '' @ ''A:'' @ '' 9 to 5'' \<and>
        contains ''Q:'' ''Q: What are your hours? ''"
    by simp
  then have "\<exists>u w. ?l1 = u @ ''A:'' @ w \<and> contains ''Q:'' u" by blast
  then have w1: "well_formed_line ?l1" unfolding well_formed_line_def by (simp add: NL_def)
  have "?l2 = '' Q: Open Sundays? '' @ ''A:'' @ '' No  '' \<and> contains ''Q:'' '' Q: Open Sundays? ''"
    by simp
  then have "\<exists>u w. ?l2 = u @ ''A:'' @ w \<and> contains ''Q:'' u" by blast
  then have w2: "well_formed_line ?l2" unfolding well_formed_line_def by (simp add: NL_def)
  have hyp: "\<forall>l\<in>set [?l1, ?l2]. well_formed_line l \<and> \<not> contains ''QQ::'' l \<and> \<not> contains ''AQ::'' l"
    using w1 w2 by simp
  from parse_faq_input_well_formed [OF hyp] obtain qa_pairs where
    p: "parse_faq_input (join_lines [?l1, ?l2]) = Inr qa_pairs" and
    n: "length qa_pairs = length [?l1, ?l2]" and
    e: "\<And>i u v w. i < length [?l1, ?l2] \<and> [?l1, ?l2] ! i = u @ ''Q:'' @ v @ ''A:'' @ w \<Longrightarrow>
          qa_pairs ! i = (strip (u @ v), strip w)"
    by blast
  have "0 < length [?l1, ?l2] \<and> [?l1, ?l2] ! 0 = [] @ ''Q:'' @ '' What are your hours? '' @ ''A:'' @ '' 9 to 5''"
    by simp
  from e [OF this] have 0: "qa_pairs ! 0 = (''What are your hours?'', ''9 to 5'')"
    by (simp add: strip_def lstrip_def rstrip_def isspace_def)
  have "1 < length [?l1, ?l2] \<and> [?l1, ?l2] ! 1 = '' '' @ ''Q:'' @ '' Open Sundays? '' @ ''A:'' @ '' No  ''"
    by simp
  from e [OF this] have 1: "qa_pairs ! 1 = (''Open Sundays?'', ''No'')"
    by (simp add: strip_def lstrip_def rstrip_def isspace_def)
  from n have "qa_pairs = [qa_pairs ! 0, qa_pairs ! 1]"
    by (cases qa_pairs; cases "tl qa_pairs") auto
  with 0 1 p w1 w2 show ?thesis by simp
qed

section \<open>The training examples\<close>

lemma catalog_keys_distinct: "distinct (map fst SAMPLE_INDUSTRIES)"
  by (simp add: SAMPLE_INDUSTRIES_def)

text \<open>
  Claim C2. For every business profile, list of custom pairs and industry: when the
  industry is not a key of the catalog, \<open>prepare_training_data\<close> returns one example per
  custom pair, in the caller's order; when it is a key, the custom pairs' examples come
  first and the catalog's pairs for that industry follow in the catalog's order, and
  the number of examples is the sum of the two counts. The text of an example is
  question, space, \<open>###\<close>, space, answer.
\<close>

theorem prepare_training_data_examples:
  "(industry \<notin> fst ` set SAMPLE_INDUSTRIES \<longrightarrow>
      prepare_training_data business_data custom_faqs industry =
        map (\<lambda>(q, a). [(''text'', q @ '' '' @ ''###'' @ '' '' @ a)]) custom_faqs) \<and>
   (\<forall>faqs. (industry, faqs) \<in> set SAMPLE_INDUSTRIES \<longrightarrow>
      prepare_training_data business_data custom_faqs industry =
        map (\<lambda>(q, a). [(''text'', q @ '' '' @ ''###'' @ '' '' @ a)]) custom_faqs @
        map (\<lambda>(q, a). [(''text'', q @ '' '' @ ''###'' @ '' '' @ a)]) faqs \<and>
      length (prepare_training_data business_data custom_faqs industry) =
        length custom_faqs + length faqs)"
proof (intro conjI impI allI)
  assume "industry \<notin> fst ` set SAMPLE_INDUSTRIES"
  then have "map_of SAMPLE_INDUSTRIES industry = None" by (simp add: map_of_eq_None_iff)
  then show "prepare_training_data business_data custom_faqs industry =
        map (\<lambda>(q, a). [(''text'', q @ '' '' @ ''###'' @ '' '' @ a)]) custom_faqs"
    by (simp add: prepare_training_data_def sep_token_def)
next
  fix faqs
  assume "(industry, faqs) \<in> set SAMPLE_INDUSTRIES"
  then have m: "map_of SAMPLE_INDUSTRIES industry = Some faqs"
    using catalog_keys_distinct by simp
  then show "prepare_training_data business_data custom_faqs industry =
        map (\<lambda>(q, a). [(''text'', q @ '' '' @ ''###'' @ '' '' @ a)]) custom_faqs @
        map (\<lambda>(q, a). [(''text'', q @ '' '' @ ''###'' @ '' '' @ a)]) faqs"
    by (simp add: prepare_training_data_def sep_token_def)
  from m show "length (prepare_training_data business_data custom_faqs industry) =
        length custom_faqs + length faqs"
    by (simp add: prepare_training_data_def)
qed

text \<open>An industry outside the catalog, and \<open>retail\<close>, with one custom pair.\<close>

theorem prepare_training_data_examples_witness:
  "prepare_training_data [(''name'', ''Corner Shop''), (''industry'', ''bakery'')]
     [(''Do you deliver?'', ''Yes'')] ''bakery'' =
     [[(''text'', ''Do you deliver? ### Yes'')]] \<and>
   prepare_training_data [(''name'', ''Corner Shop''), (''industry'', ''retail'')]
     [(''Do you deliver?'', ''Yes'')] ''retail'' =
     [[(''text'', ''Do you deliver? ### Yes'')],
      [(''text'', ''What are your store hours? ### Our store is open Monday through Saturday from 9 AM to 6 PM.'')],
      [(''text'', ''Do you offer returns? ### Yes, we offer returns within 30 days of purchase with original receipt.'')]] \<and>
   length (prepare_training_data [(''name'', ''Corner Shop''), (''industry'', ''retail'')]
     [(''Do you deliver?'', ''Yes'')] ''retail'') = 3"
proof -
  have a: "''bakery'' \<notin> fst ` set SAMPLE_INDUSTRIES"
    by (simp add: SAMPLE_INDUSTRIES_def)
  have b: "(''retail'',
        [(''What are your store hours?'',
          ''Our store is open Monday through Saturday from 9 AM to 6 PM.''),
         (''Do you offer returns?'',
          ''Yes, we offer returns within 30 days of purchase with original receipt.'')])
       \<in> set SAMPLE_INDUSTRIES"
    by (simp add: SAMPLE_INDUSTRIES_def)
  show ?thesis
    using prepare_training_data_examples
        [of "''bakery''" "[(''name'', ''Corner Shop''), (''industry'', ''bakery'')]"
            "[(''Do you deliver?'', ''Yes'')]"]
      prepare_training_data_examples
        [of "''retail''" "[(''name'', ''Corner Shop''), (''industry'', ''retail'')]"
            "[(''Do you deliver?'', ''Yes'')]"]
      a b
    by simp
qed

text \<open>
  Claim C10. The examples do not depend on the business profile: two profiles with the
  same custom pairs and industry give the same examples.
\<close>

theorem prepare_training_data_ignores_profile:
  "prepare_training_data b1 pairs industry = prepare_training_data b2 pairs industry"
  by (simp add: prepare_training_data_def)

theorem prepare_training_data_ignores_profile_witness:
  "prepare_training_data [(''name'', ''Corner Shop''), (''industry'', ''retail'')]
     [(''Do you deliver?'', ''Yes'')] ''retail'' =
   prepare_training_data [(''name'', ''Secret Name''), (''owner'', ''Someone'')]
     [(''Do you deliver?'', ''Yes'')] ''retail''"
  by (rule prepare_training_data_ignores_profile)

section \<open>The guards of chat\<close>

text \<open>
  Claim C4. With an empty checkpoint path, \<open>chat\<close> returns the non-empty message to
  train first and leaves the history (and the state) as they were, whatever the
  question, so also when the question is empty too; with a path and an empty question
  it returns the non-empty message to ask a question, history unchanged.
\<close>

theorem chat_guards:
  "chat ext w question [] history = ((''Please train the chatbot first!'', history), w) \<and>
   (model_path \<noteq> [] \<longrightarrow>
      chat ext w [] model_path history = ((''Please ask a question!'', history), w)) \<and>
   ''Please train the chatbot first!'' \<noteq> [] \<and> ''Please ask a question!'' \<noteq> []"
  by (simp add: chat_def)

theorem chat_guards_witness:
  "chat sample_ext sample_world ''Are you open?'' [] [(''Hi'', ''Hello'')] =
     ((''Please train the chatbot first!'', [(''Hi'', ''Hello'')]), sample_world) \<and>
   chat sample_ext sample_world [] [] [(''Hi'', ''Hello'')] =
     ((''Please train the chatbot first!'', [(''Hi'', ''Hello'')]), sample_world) \<and>
   chat sample_ext sample_world [] ''/srv/bot/models/fine_tuned'' [(''Hi'', ''Hello'')] =
     ((''Please ask a question!'', [(''Hi'', ''Hello'')]), sample_world)"
  using chat_guards [of sample_ext sample_world "''Are you open?''" "[(''Hi'', ''Hello'')]"
      "''/srv/bot/models/fine_tuned''"]
    chat_guards [of sample_ext sample_world "[]" "[(''Hi'', ''Hello'')]"
      "''/srv/bot/models/fine_tuned''"]
  by simp

section \<open>Chatting and training\<close>

lemma sample_path_str:
  "path_str sample_ext ''/srv/bot/models/fine_tuned'' = ''/srv/bot/models/fine_tuned''"
  by (simp add: sample_ext_def posix_path_str_def)

lemma model_config_has_no_max_length:
  "dict_getitem (MODEL_CONFIG mps) ''max_length'' = Inl (KeyError ''max_length'')"
  by (simp add: dict_getitem_def MODEL_CONFIG_def)

lemma generate_response_fails:
  "generate_response ext w question =
     (case tok_encode ext (question @ '' ###'') of
        Inl e \<Rightarrow> Inl e
      | Inr input_ids \<Rightarrow> Inl (KeyError ''max_length''),
      w\<lparr>calls := calls w @ [EncodeCall (question @ '' ###'')]\<rparr>)"
  by (simp add: generate_response_def Let_def model_config_has_no_max_length bind_err_def
      split: sum.splits)

lemma chat_after_guards:
  assumes "question \<noteq> []" and "model_path \<noteq> []"
  shows "chat ext w question model_path history =
     (case (if loaded_model_path w = None \<or> loaded_model_path w \<noteq> Some model_path
            then (case load_model ext w (path_str ext model_path) of
                    (Inl e, w1) \<Rightarrow> (Inl e, w1)
                  | (Inr u, w1) \<Rightarrow> (Inr u, w1\<lparr>loaded_model_path := Some model_path\<rparr>))
            else (Inr (), w)) of
        (Inl e, w1) \<Rightarrow> ((''Error: '' @ str_of_error e, history), w1)
      | (Inr u, w1) \<Rightarrow>
          (case generate_response ext w1 question of
             (Inl e, w2) \<Rightarrow> ((''Error: '' @ str_of_error e, history), w2)
           | (Inr response, w2) \<Rightarrow> ((response, history @ [(question, response)]), w2)))"
  using assms by (simp add: chat_def)

lemma chat_history_unchanged: "snd (fst (chat ext w question model_path history)) = history"
  by (simp add: chat_def generate_response_fails load_model_def Let_def
      split: sum.splits prod.splits)

text \<open>
  Claim C3, where the code departs from it. The claim is about the reply that
  \<open>generate_response\<close> makes of the decoded text. No call gets that far: after encoding
  the prompt the function looks \<open>max_length\<close> up in \<open>MODEL_CONFIG\<close>, which has no such key,
  and the \<open>KeyError\<close> is raised again by its handler. So for every question the function
  returns no reply at all, and when the prompt is encoded the error is that
  \<open>KeyError\<close>, with the tokenizer called once and the model and the decoder never.
\<close>

theorem generate_response_key_error:
  "(\<forall>r. fst (generate_response ext w question) \<noteq> Inr r) \<and>
   ((\<exists>ids. tok_encode ext (question @ '' ###'') = Inr ids) \<longrightarrow>
      generate_response ext w question =
        (Inl (KeyError ''max_length''),
         w\<lparr>calls := calls w @ [EncodeCall (question @ '' ###'')]\<rparr>))"
  by (auto simp: generate_response_fails split: sum.splits)

text \<open>
  The sample tokenizer encodes every prompt and the sample model would echo it, so the
  decoded text would be the prompt with its separator; the call fails all the same.
\<close>

theorem generate_response_key_error_witness:
  "generate_response sample_ext sample_world ''What are your hours?'' =
     (Inl (KeyError ''max_length''),
      sample_world\<lparr>calls := [EncodeCall ''What are your hours? ###'']\<rparr>) \<and>
   str_of_error (KeyError ''max_length'') = [CHR 0x27] @ ''max_length'' @ [CHR 0x27]"
proof -
  have "\<exists>ids. tok_encode sample_ext (''What are your hours?'' @ '' ###'') = Inr ids"
    by (simp add: sample_ext_def)
  with generate_response_key_error [of sample_ext sample_world "''What are your hours?''"]
  show ?thesis by (simp add: sample_world_def)
qed

text \<open>
  Claim C5, where the code departs from it. \<open>generate_response\<close> reads \<open>max_length\<close>,
  \<open>temperature\<close> and \<open>top_p\<close> from \<open>MODEL_CONFIG\<close>, which has none of them (they are keys
  of \<open>GENERATION_CONFIG\<close>), so the lookup raises \<open>KeyError\<close> before the model is asked.
  Hence \<open>chat\<close> never appends a turn: the history comes back as it was for every input.
  With a question and a path, when the checkpoint is loaded already or loads, and the
  prompt is encoded, the model is loaded exactly when the path differs from the one
  loaded last (the framework is given the path as \<open>pathlib\<close> spells it) and the path is
  recorded, but the reply is the error message of the failed lookup.
\<close>

theorem chat_generation_key_error:
  "snd (fst (chat ext w question model_path history)) = history \<and>
   dict_getitem (MODEL_CONFIG (mps_available ext)) ''max_length'' = Inl (KeyError ''max_length'') \<and>
   dict_getitem GENERATION_CONFIG ''max_length'' = Inr (CInt 128) \<and>
   (question \<noteq> [] \<and> model_path \<noteq> [] \<and>
    (loaded_model_path w = Some model_path \<or> (\<exists>m. from_pretrained ext (path_str ext model_path) = Inr m)) \<and>
    (\<exists>ids. tok_encode ext (question @ '' ###'') = Inr ids) \<longrightarrow>
      fst (chat ext w question model_path history) =
        (''Error: '' @ [CHR 0x27] @ ''max_length'' @ [CHR 0x27], history) \<and>
      loaded_model_path (snd (chat ext w question model_path history)) = Some model_path \<and>
      calls (snd (chat ext w question model_path history)) =
        calls w @
        (if loaded_model_path w = Some model_path then [] else [LoadCall (path_str ext model_path)]) @
        [EncodeCall (question @ '' ###'')])"
proof (intro conjI impI)
  show "snd (fst (chat ext w question model_path history)) = history"
    by (rule chat_history_unchanged)
  show "dict_getitem (MODEL_CONFIG (mps_available ext)) ''max_length'' =
        Inl (KeyError ''max_length'')"
    by (rule model_config_has_no_max_length)
  show "dict_getitem GENERATION_CONFIG ''max_length'' = Inr (CInt 128)"
    by (simp add: dict_getitem_def GENERATION_CONFIG_def)
next
  assume a: "question \<noteq> [] \<and> model_path \<noteq> [] \<and>
    (loaded_model_path w = Some model_path \<or> (\<exists>m. from_pretrained ext (path_str ext model_path) = Inr m)) \<and>
    (\<exists>ids. tok_encode ext (question @ '' ###'') = Inr ids)"
  then obtain ids where ids: "tok_encode ext (question @ '' ###'') = Inr ids" by blast
  from a have q: "question \<noteq> []" and p: "model_path \<noteq> []" by simp_all
  have "fst (chat ext w question model_path history) =
        (''Error: '' @ [CHR 0x27] @ ''max_length'' @ [CHR 0x27], history) \<and>
      loaded_model_path (snd (chat ext w question model_path history)) = Some model_path \<and>
      calls (snd (chat ext w question model_path history)) =
        calls w @
        (if loaded_model_path w = Some model_path then [] else [LoadCall (path_str ext model_path)]) @
        [EncodeCall (question @ '' ###'')]"
  proof (cases "loaded_model_path w = Some model_path")
    case True
    with q p ids show ?thesis
      by (simp add: chat_after_guards generate_response_fails)
  next
    case False
    with a obtain m where "from_pretrained ext (path_str ext model_path) = Inr m" by blast
    with False q p ids show ?thesis
      by (simp add: chat_after_guards generate_response_fails load_model_def Let_def)
  qed
  then show "fst (chat ext w question model_path history) =
        (''Error: '' @ [CHR 0x27] @ ''max_length'' @ [CHR 0x27], history)"
    and "loaded_model_path (snd (chat ext w question model_path history)) = Some model_path"
    and "calls (snd (chat ext w question model_path history)) =
        calls w @
        (if loaded_model_path w = Some model_path then [] else [LoadCall (path_str ext model_path)]) @
        [EncodeCall (question @ '' ###'')]"
    by simp_all
qed

theorem chat_generation_key_error_witness:
  "fst (chat sample_ext sample_world ''What are your hours?'' ''/srv/bot/models/fine_tuned'' []) =
     (''Error: '' @ [CHR 0x27] @ ''max_length'' @ [CHR 0x27], []) \<and>
   calls (snd (chat sample_ext sample_world ''What are your hours?''
                 ''/srv/bot/models/fine_tuned'' [])) =
     [LoadCall ''/srv/bot/models/fine_tuned'', EncodeCall ''What are your hours? ###'']"
proof -
  have "''What are your hours?'' \<noteq> [] \<and> ''/srv/bot/models/fine_tuned'' \<noteq> [] \<and>
    (loaded_model_path sample_world = Some ''/srv/bot/models/fine_tuned'' \<or>
     (\<exists>m. from_pretrained sample_ext (path_str sample_ext ''/srv/bot/models/fine_tuned'') = Inr m)) \<and>
    (\<exists>ids. tok_encode sample_ext (''What are your hours?'' @ '' ###'') = Inr ids)"
    by (simp add: sample_ext_def)
  with chat_generation_key_error
         [of sample_ext sample_world "''What are your hours?''" "''/srv/bot/models/fine_tuned''" "[]"]
  show ?thesis by (simp add: sample_world_def sample_path_str)
qed

lemma training_args_found:
  "bind_err (dict_getitem TRAINING_CONFIG ''num_epochs'') (\<lambda>num_train_epochs.
   bind_err (dict_getitem TRAINING_CONFIG ''batch_size'') (\<lambda>batch_size.
   bind_err (dict_getitem TRAINING_CONFIG ''learning_rate'') (\<lambda>learning_rate.
   bind_err (dict_getitem TRAINING_CONFIG ''warmup_steps'') (\<lambda>warmup_steps.
   bind_err (dict_getitem TRAINING_CONFIG ''max_grad_norm'') (\<lambda>max_grad_norm.
   bind_err (dict_getitem TRAINING_CONFIG ''gradient_accumulation_steps'') (\<lambda>accumulation.
   Inr [num_train_epochs, batch_size, learning_rate, warmup_steps, max_grad_norm,
        accumulation])))))) =
   Inr [CInt 1, CInt 2, CDec ''1e-4'', CInt 10, CDec ''1.0'', CInt 4]"
  by (simp add: bind_err_def dict_getitem_def TRAINING_CONFIG_def)

lemma train_default_dir:
  "train ext w dataset None =
     (case trainer_train ext (model w) dataset (MODELS_DIR ext @ ''/fine_tuned'')
             [CInt 1, CInt 2, CDec ''1e-4'', CInt 10, CDec ''1.0'', CInt 4] of
        Inl e \<Rightarrow> (Inl e, w\<lparr>calls := calls w @ [TrainCall (MODELS_DIR ext @ ''/fine_tuned'')]\<rparr>)
      | Inr (training_loss, trained) \<Rightarrow>
          (Inr (training_loss, MODELS_DIR ext @ ''/fine_tuned''),
           w\<lparr>calls := calls w @ [TrainCall (MODELS_DIR ext @ ''/fine_tuned'')],
             model := trained\<rparr>))"
  by (simp add: train_def training_args_found Let_def split: sum.splits)

text \<open>
  Claim C9. An error raised by the framework is reported once and not retried. In
  \<open>chat\<close>, when loading the checkpoint fails, or when encoding the prompt fails, the
  reply is \<open>Error:\<close> followed by the message of the error, the history is unchanged, and
  the failed operation was called once. In \<open>train_chatbot\<close>, when tokenizing fails, or
  when training fails, the status is \<open>Error:\<close> followed by the message, the path returned
  is empty, and each operation was called once. In every case the call returns, with a
  state from which the next request runs.
\<close>

theorem framework_errors_are_reported:
  "(question \<noteq> [] \<and> model_path \<noteq> [] \<and> loaded_model_path w \<noteq> Some model_path \<and>
    from_pretrained ext (path_str ext model_path) = Inl e \<longrightarrow>
      chat ext w question model_path history =
        ((''Error: '' @ str_of_error e, history),
         w\<lparr>calls := calls w @ [LoadCall (path_str ext model_path)]\<rparr>)) \<and>
   (question \<noteq> [] \<and> model_path \<noteq> [] \<and>
    (loaded_model_path w = Some model_path \<or> (\<exists>m. from_pretrained ext (path_str ext model_path) = Inr m)) \<and>
    tok_encode ext (question @ '' ###'') = Inl e \<longrightarrow>
      fst (chat ext w question model_path history) = (''Error: '' @ str_of_error e, history) \<and>
      calls (snd (chat ext w question model_path history)) =
        calls w @
        (if loaded_model_path w = Some model_path then [] else [LoadCall (path_str ext model_path)]) @
        [EncodeCall (question @ '' ###'')]) \<and>
   (\<forall>qa_pairs.
      parse_faq_input faq_text = Inr qa_pairs \<and>
      tokenize ext
        (prepare_training_data [(''name'', business_name), (''industry'', industry)]
           qa_pairs industry) = Inl e \<longrightarrow>
        train_chatbot ext w business_name industry faq_text =
          ((''Error: '' @ str_of_error e, []), w\<lparr>calls := calls w @ [TokenizeCall]\<rparr>)) \<and>
   (\<forall>qa_pairs tokenized.
      parse_faq_input faq_text = Inr qa_pairs \<and>
      tokenize ext
        (prepare_training_data [(''name'', business_name), (''industry'', industry)]
           qa_pairs industry) = Inr tokenized \<and>
      trainer_train ext (model w) tokenized (MODELS_DIR ext @ ''/fine_tuned'')
        [CInt 1, CInt 2, CDec ''1e-4'', CInt 10, CDec ''1.0'', CInt 4] = Inl e \<longrightarrow>
        train_chatbot ext w business_name industry faq_text =
          ((''Error: '' @ str_of_error e, []),
           w\<lparr>calls := calls w @ [TokenizeCall, TrainCall (MODELS_DIR ext @ ''/fine_tuned'')]\<rparr>))"
proof (intro conjI impI allI)
  assume "question \<noteq> [] \<and> model_path \<noteq> [] \<and> loaded_model_path w \<noteq> Some model_path \<and>
    from_pretrained ext (path_str ext model_path) = Inl e"
  then show "chat ext w question model_path history =
        ((''Error: '' @ str_of_error e, history), w\<lparr>calls := calls w @ [LoadCall (path_str ext model_path)]\<rparr>)"
    by (simp add: chat_after_guards load_model_def Let_def)
next
  assume a: "question \<noteq> [] \<and> model_path \<noteq> [] \<and>
    (loaded_model_path w = Some model_path \<or> (\<exists>m. from_pretrained ext (path_str ext model_path) = Inr m)) \<and>
    tok_encode ext (question @ '' ###'') = Inl e"
  have "fst (chat ext w question model_path history) = (''Error: '' @ str_of_error e, history) \<and>
      calls (snd (chat ext w question model_path history)) =
        calls w @
        (if loaded_model_path w = Some model_path then [] else [LoadCall (path_str ext model_path)]) @
        [EncodeCall (question @ '' ###'')]"
  proof (cases "loaded_model_path w = Some model_path")
    case True
    with a show ?thesis by (simp add: chat_after_guards generate_response_fails)
  next
    case False
    with a obtain m where "from_pretrained ext (path_str ext model_path) = Inr m" by blast
    with False a show ?thesis
      by (simp add: chat_after_guards generate_response_fails load_model_def Let_def)
  qed
  then show "fst (chat ext w question model_path history) = (''Error: '' @ str_of_error e, history)"
    and "calls (snd (chat ext w question model_path history)) =
        calls w @
        (if loaded_model_path w = Some model_path then [] else [LoadCall (path_str ext model_path)]) @
        [EncodeCall (question @ '' ###'')]"
    by simp_all
next
  fix qa_pairs
  assume "parse_faq_input faq_text = Inr qa_pairs \<and>
      tokenize ext
        (prepare_training_data [(''name'', business_name), (''industry'', industry)]
           qa_pairs industry) = Inl e"
  then show "train_chatbot ext w business_name industry faq_text =
          ((''Error: '' @ str_of_error e, []), w\<lparr>calls := calls w @ [TokenizeCall]\<rparr>)"
    by (simp add: train_chatbot_def train_chatbot_body_def tokenize_data_def Let_def)
next
  fix qa_pairs tokenized
  assume "parse_faq_input faq_text = Inr qa_pairs \<and>
      tokenize ext
        (prepare_training_data [(''name'', business_name), (''industry'', industry)]
           qa_pairs industry) = Inr tokenized \<and>
      trainer_train ext (model w) tokenized (MODELS_DIR ext @ ''/fine_tuned'')
        [CInt 1, CInt 2, CDec ''1e-4'', CInt 10, CDec ''1.0'', CInt 4] = Inl e"
  then show "train_chatbot ext w business_name industry faq_text =
          ((''Error: '' @ str_of_error e, []),
           w\<lparr>calls := calls w @ [TokenizeCall, TrainCall (MODELS_DIR ext @ ''/fine_tuned'')]\<rparr>)"
    by (simp add: train_chatbot_def train_chatbot_body_def tokenize_data_def train_default_dir
        Let_def)
qed

text \<open>
  The sample environment with a checkpoint that cannot be read, and with a trainer that
  runs out of memory.
\<close>

theorem framework_errors_are_reported_witness:
  "chat (sample_ext\<lparr>from_pretrained := \<lambda>path. Inl (Failure ''no such checkpoint'')\<rparr>)
     sample_world ''Open Sundays?'' ''/srv/bot/models/fine_tuned'' [(''Hi'', ''Hello'')] =
     ((''Error: no such checkpoint'', [(''Hi'', ''Hello'')]),
      sample_world\<lparr>calls := [LoadCall ''/srv/bot/models/fine_tuned'']\<rparr>) \<and>
   train_chatbot (sample_ext\<lparr>trainer_train := \<lambda>m d dir args. Inl (Failure ''out of memory'')\<rparr>)
     sample_world ''Corner Shop'' ''retail'' ''Q: Open Sundays? A: No'' =
     ((''Error: out of memory'', []),
      sample_world\<lparr>calls := [TokenizeCall, TrainCall ''/srv/bot/models/fine_tuned'']\<rparr>)"
proof -
  let ?ext1 = "sample_ext\<lparr>from_pretrained := \<lambda>path. Inl (Failure ''no such checkpoint'')\<rparr>"
  let ?ext2 = "sample_ext\<lparr>trainer_train := \<lambda>m d dir args. Inl (Failure ''out of memory'')\<rparr>"
  have 1: "''Open Sundays?'' \<noteq> [] \<and> ''/srv/bot/models/fine_tuned'' \<noteq> [] \<and>
      loaded_model_path sample_world \<noteq> Some ''/srv/bot/models/fine_tuned'' \<and>
      from_pretrained ?ext1 (path_str ?ext1 ''/srv/bot/models/fine_tuned'') = Inl (Failure ''no such checkpoint'')"
    by (simp add: sample_world_def)
  have p: "parse_faq_input ''Q: Open Sundays? A: No'' = Inr [(''Open Sundays?'', ''No'')]"
    by (simp add: parse_faq_input_def strip_def lstrip_def rstrip_def isspace_def NL_def
        getitem_def)
  have 2: "parse_faq_input ''Q: Open Sundays? A: No'' = Inr [(''Open Sundays?'', ''No'')] \<and>
      tokenize ?ext2
        (prepare_training_data [(''name'', ''Corner Shop''), (''industry'', ''retail'')]
           [(''Open Sundays?'', ''No'')] ''retail'') = Inr 3 \<and>
      trainer_train ?ext2 (model sample_world) 3 (MODELS_DIR ?ext2 @ ''/fine_tuned'')
        [CInt 1, CInt 2, CDec ''1e-4'', CInt 10, CDec ''1.0'', CInt 4] =
        Inl (Failure ''out of memory'')"
    using p by (simp add: sample_ext_def prepare_training_data_def SAMPLE_INDUSTRIES_def)
  have d: "MODELS_DIR ?ext2 @ ''/fine_tuned'' = ''/srv/bot/models/fine_tuned''"
    by (simp add: MODELS_DIR_def sample_ext_def)
  from framework_errors_are_reported
         [of "''Open Sundays?''" "''/srv/bot/models/fine_tuned''" sample_world ?ext1
             "Failure ''no such checkpoint''" "[(''Hi'', ''Hello'')]"] 1
  have a: "chat ?ext1 sample_world ''Open Sundays?'' ''/srv/bot/models/fine_tuned''
             [(''Hi'', ''Hello'')] =
     ((''Error: no such checkpoint'', [(''Hi'', ''Hello'')]),
      sample_world\<lparr>calls := [LoadCall ''/srv/bot/models/fine_tuned'']\<rparr>)"
    by (simp add: sample_world_def sample_path_str)
  from framework_errors_are_reported
         [of _ _ sample_world ?ext2 "Failure ''out of memory''" _
             "''Q: Open Sundays? A: No''" "''Corner Shop''" "''retail''"] 2
  have b: "train_chatbot ?ext2 sample_world ''Corner Shop'' ''retail'' ''Q: Open Sundays? A: No'' =
     ((''Error: out of memory'', []),
      sample_world\<lparr>calls := [TokenizeCall, TrainCall (MODELS_DIR ?ext2 @ ''/fine_tuned'')]\<rparr>)"
    by (simp add: sample_world_def)
  from a b d show ?thesis by simp
qed

section \<open>Exporting\<close>

lemma json_str_dict_roundtrip:
  "json_str_dict (JObject (map (\<lambda>(k, v). (k, JString v)) d)) = Some d"
proof -
  have "those (map (\<lambda>(k, v). map_option (Pair k) (json_string v))
                   (map (\<lambda>(k, v). (k, JString v)) d)) = Some d"
    by (induction d) auto
  then show ?thesis by simp
qed

lemma json_qa_pairs_roundtrip:
  "json_qa_pairs
     (JArray (map (\<lambda>(q, a). JObject [(''question'', JString q), (''answer'', JString a)]) qa))
   = Some qa"
proof -
  have "those (map json_qa
          (map (\<lambda>(q, a). JObject [(''question'', JString q), (''answer'', JString a)]) qa))
        = Some qa"
    by (induction qa) (auto simp: json_qa_def)
  then show ?thesis by simp
qed

text \<open>
  Claim C8. When the file can be opened, \<open>export_chatbot_data\<close> writes one document with
  exactly the two fields \<open>business_info\<close> and \<open>qa_pairs\<close>; reading the file back gives a
  document whose \<open>business_info\<close> is the profile and whose \<open>qa_pairs\<close> are the pairs in
  the order given. Without a destination the path is the default one under the data
  directory; the path written is returned, whatever was stored there before is
  replaced, and no other file changes.
\<close>

theorem export_chatbot_data_roundtrip:
  assumes "path = (case output_file of
                     None \<Rightarrow> DATA_DIR ext @ ''/chatbot_export.json''
                   | Some f \<Rightarrow> f)"
    and "open_write ext path = None"
  shows "\<exists>w' business_info pairs.
           export_chatbot_data ext w business_data qa_pairs output_file = (Inr path, w') \<and>
           files w' path = Some (JObject [(''business_info'', business_info), (''qa_pairs'', pairs)]) \<and>
           json_str_dict business_info = Some business_data \<and>
           json_qa_pairs pairs = Some qa_pairs \<and>
           (\<forall>other. other \<noteq> path \<longrightarrow> files w' other = files w other) \<and>
           model w' = model w \<and> loaded_model_path w' = loaded_model_path w"
  using assms
  by (simp add: export_chatbot_data_def Let_def json_str_dict_roundtrip json_qa_pairs_roundtrip
      del: json_str_dict.simps json_qa_pairs.simps)

theorem export_chatbot_data_roundtrip_witness:
  "\<exists>w' business_info pairs.
     export_chatbot_data sample_ext
       (sample_world\<lparr>files := [''/srv/bot/data/chatbot_export.json'' \<mapsto> JString ''old'']\<rparr>)
       [(''name'', ''Corner Shop''), (''industry'', ''retail'')]
       [(''Do you deliver?'', ''Yes''), (''Open Sundays?'', ''No'')] None =
       (Inr ''/srv/bot/data/chatbot_export.json'', w') \<and>
     files w' ''/srv/bot/data/chatbot_export.json'' =
       Some (JObject [(''business_info'', business_info), (''qa_pairs'', pairs)]) \<and>
     json_str_dict business_info = Some [(''name'', ''Corner Shop''), (''industry'', ''retail'')] \<and>
     json_qa_pairs pairs = Some [(''Do you deliver?'', ''Yes''), (''Open Sundays?'', ''No'')]"
proof -
  have p: "''/srv/bot/data/chatbot_export.json'' =
           (case None of None \<Rightarrow> DATA_DIR sample_ext @ ''/chatbot_export.json'' | Some f \<Rightarrow> f)"
    by (simp add: DATA_DIR_def sample_ext_def)
  have o: "open_write sample_ext ''/srv/bot/data/chatbot_export.json'' = None"
    by (simp add: sample_ext_def)
  from export_chatbot_data_roundtrip [OF p o] show ?thesis by blast
qed

end
